theory Spec2Isabelle
  imports Main "HOL-Library.Word"
begin

unbundle bit_operations_syntax

section \<open>Host primitives used by the builders\<close>

text \<open>
  The library runs on Luau. The primitives below are the ones the source calls and does
  not define itself: number formatting, \<open>string.sub\<close>, anchored pattern matching,
  \<open>utf8.len\<close> and the bit field of the flags.
\<close>

subsection \<open>Formatting numbers\<close>

text \<open>
  A Luau number is a double. The numbers formatted here have an integral value and are
  modelled by that integer. \<open>decimal\<close> writes an integer in full; it is what the host's
  \<open>tostring\<close> gives up to \<open>2^53\<close> and the reference that \<open>tostring\<close> is compared with
  above.
\<close>

definition digit_char :: "nat \<Rightarrow> char" where
  "digit_char d = ''0123456789'' ! d"

fun decimal_nat :: "nat \<Rightarrow> string" where
  "decimal_nat n =
     (if n < 10 then [digit_char n]
      else decimal_nat (n div 10) @ [digit_char (n mod 10)])"

declare decimal_nat.simps [simp del]

definition decimal :: "int \<Rightarrow> string" where
  "decimal i = (if i < 0 then CHR ''-'' # decimal_nat (nat (- i)) else decimal_nat (nat i))"

text \<open>
  \<open>tostring\<close> of a number gives the shortest decimal digits that read back as the same
  double, the nearest such when there are several, in positional notation when that takes
  at most 21 digits and with an exponent otherwise. Up to \<open>2^53\<close> every integer is a
  double of its own and is written in full. Above, the double \<open>n\<close> has the 53-bit
  mantissa \<open>n div 2^e\<close> with \<open>e = bit_length n - 53\<close>; its neighbours are \<open>2^e\<close> away (the
  lower one half as far when \<open>n\<close> is a power of two), and a decimal reads back as \<open>n\<close>
  when it is nearer to \<open>n\<close> than to a neighbour, or half-way and the mantissa is even.
\<close>

fun bit_length :: "nat \<Rightarrow> nat" where
  "bit_length n = (if n = 0 then 0 else Suc (bit_length (n div 2)))"

declare bit_length.simps [simp del]

text \<open>The naturals that are the value of a double: no bit below the 53 of the mantissa.\<close>

definition is_double :: "nat \<Rightarrow> bool" where
  "is_double n \<longleftrightarrow> n mod 2 ^ (bit_length n - 53) = 0 \<and> bit_length n \<le> 1024"

definition reads_back :: "nat \<Rightarrow> nat \<Rightarrow> bool" where
  "reads_back n c =
     (let e = bit_length n - 53;
          above = 2 ^ (e - 1);
          below = (if n = 2 ^ (bit_length n - 1) then above div 2 else above)
      in if even (n div 2 ^ e) then n - below \<le> c \<and> c \<le> n + above
         else n - below < c \<and> c < n + above)"

text \<open>
  \<open>feasible n k\<close>: a multiple of \<open>10^k\<close> reads back as \<open>n\<close>. \<open>scale n fuel\<close> is the
  largest such \<open>k\<close> up to \<open>fuel\<close>, and \<open>nearest n k\<close> the multiple of \<open>10^k\<close> nearest to
  \<open>n\<close> among those that read back.
\<close>

definition feasible :: "nat \<Rightarrow> nat \<Rightarrow> bool" where
  "feasible n k =
     (let down = (n div 10 ^ k) * 10 ^ k in reads_back n down \<or> reads_back n (down + 10 ^ k))"

fun scale :: "nat \<Rightarrow> nat \<Rightarrow> nat" where
  "scale n 0 = 0"
| "scale n (Suc k) = (if feasible n (Suc k) then Suc k else scale n k)"

definition nearest :: "nat \<Rightarrow> nat \<Rightarrow> nat" where
  "nearest n k =
     (let down = (n div 10 ^ k) * 10 ^ k;
          up = down + 10 ^ k
      in if reads_back n down \<and> reads_back n up
         then (if n - down < up - n then down
               else if up - n < n - down then up
               else if even (n div 10 ^ k) then down else up)
         else if reads_back n down then down else up)"

definition shortest :: "nat \<Rightarrow> nat" where
  "shortest n = nearest n (scale n (bit_length n))"

definition with_exponent :: "string \<Rightarrow> string" where
  "with_exponent ds =
     (let significant = rev (dropWhile (\<lambda>d. d = CHR ''0'') (rev (tl ds)))
      in hd ds # (if significant = [] then [] else CHR ''.'' # significant)
         @ ''e+'' @ decimal_nat (length ds - 1))"

definition num2str :: "nat \<Rightarrow> string" where
  "num2str n =
     (if n \<le> 2 ^ 53 then decimal_nat n
      else (let ds = decimal_nat (shortest n)
            in if length ds \<le> 21 then ds else with_exponent ds))"

definition tostring :: "int \<Rightarrow> string" where
  "tostring i = (if i < 0 then CHR ''-'' # num2str (nat (- i)) else num2str (nat i))"

subsection \<open>\<open>string.sub\<close>\<close>

definition posrelat :: "int \<Rightarrow> int \<Rightarrow> int" where
  "posrelat pos len = (let p = (if pos < 0 then pos + len + 1 else pos) in if 0 \<le> p then p else 0)"

definition string_sub :: "string \<Rightarrow> int \<Rightarrow> int \<Rightarrow> string" where
  "string_sub s i j =
     (let l = int (length s);
          start = max 1 (posrelat i l);
          stop = min l (posrelat j l)
      in if start \<le> stop then take (nat (stop - start + 1)) (drop (nat (start - 1)) s) else [])"

subsection \<open>Anchored patterns\<close>

text \<open>
  The three patterns of the source all start with \<open>^\<close> and use only the items below:
  \<open>%d\<close> (an ASCII digit), a literal character (written plainly or escaped, as
  \<open>%-\<close> and \<open>%.\<close>), a literal followed by \<open>?\<close>, and a final \<open>$\<close>.
\<close>

datatype pattern_item = Digit | Lit char | Opt char | End

definition is_digit :: "char \<Rightarrow> bool" where
  "is_digit c = (48 \<le> (of_char c :: nat) \<and> (of_char c :: nat) \<le> 57)"

fun str_match :: "pattern_item list \<Rightarrow> string \<Rightarrow> bool" where
  "str_match [] s = True"
| "str_match (End # p) s = (s = [] \<and> str_match p s)"
| "str_match (Digit # p) s = (case s of [] \<Rightarrow> False | c # cs \<Rightarrow> is_digit c \<and> str_match p cs)"
| "str_match (Lit x # p) s = (case s of [] \<Rightarrow> False | c # cs \<Rightarrow> c = x \<and> str_match p cs)"
| "str_match (Opt x # p) s =
     ((case s of [] \<Rightarrow> False | c # cs \<Rightarrow> c = x \<and> str_match p cs) \<or> str_match p s)"

subsection \<open>\<open>utf8.len\<close>\<close>

text \<open>
  Modelled from the spec: the host's Unicode-aware string-length counter, which fails
  distinctly on a malformed byte sequence. \<open>utf8_len s\<close> is \<open>Inr n\<close> when \<open>s\<close> is
  well-formed UTF-8 of \<open>n\<close> code points, and \<open>Inl p\<close> when the byte at the (1-based)
  position \<open>p\<close> starts the first malformed sequence.
\<close>

definition continuation :: "char \<Rightarrow> bool" where
  "continuation c = (128 \<le> (of_char c :: nat) \<and> (of_char c :: nat) < 192)"

definition low6 :: "char \<Rightarrow> nat" where
  "low6 c = of_char c mod 64"

text \<open>The number of continuation bytes after the lead byte \<open>c\<close>, or \<open>None\<close>.\<close>

definition utf8_decode :: "char \<Rightarrow> string \<Rightarrow> nat option" where
  "utf8_decode c cs =
     (let b = (of_char c :: nat) in
      if b < 128 then Some 0
      else if b < 192 then None
      else if b < 224 then
        (case cs of
           c1 # _ \<Rightarrow>
             if continuation c1 \<and> 128 \<le> (b mod 32) * 64 + low6 c1 then Some 1 else None
         | _ \<Rightarrow> None)
      else if b < 240 then
        (case cs of
           c1 # c2 # _ \<Rightarrow>
             (let cp = (b mod 16) * 4096 + low6 c1 * 64 + low6 c2 in
              if continuation c1 \<and> continuation c2 \<and> 2048 \<le> cp
                 \<and> \<not> (55296 \<le> cp \<and> cp < 57344)
              then Some 2 else None)
         | _ \<Rightarrow> None)
      else if b < 248 then
        (case cs of
           c1 # c2 # c3 # _ \<Rightarrow>
             (let cp = (b mod 8) * 262144 + low6 c1 * 4096 + low6 c2 * 64 + low6 c3 in
              if continuation c1 \<and> continuation c2 \<and> continuation c3
                 \<and> 65536 \<le> cp \<and> cp \<le> 1114111
              then Some 3 else None)
         | _ \<Rightarrow> None)
      else None)"

fun utf8_count :: "nat \<Rightarrow> nat \<Rightarrow> string \<Rightarrow> nat + nat" where
  "utf8_count pos n [] = Inr n"
| "utf8_count pos n (c # cs) =
     (case utf8_decode c cs of
        None \<Rightarrow> Inl pos
      | Some k \<Rightarrow> utf8_count (pos + 1 + k) (Suc n) (drop k cs))"

definition utf8_len :: "string \<Rightarrow> nat + nat" where
  "utf8_len s = utf8_count 1 0 s"

subsection \<open>The bit field\<close>

text \<open>
  Modelled from the spec: the external bit-set utility, supporting test and set and
  exposing its combined integer value. \<open>On\<close> returns a new bit field.
\<close>

record BitField =
  Value :: "32 word"

definition new_BitField :: BitField where
  "new_BitField = \<lparr>Value = 0\<rparr>"

definition Intersects :: "BitField \<Rightarrow> 32 word \<Rightarrow> bool" where
  "Intersects b bits = (Value b AND bits \<noteq> 0)"

definition On :: "BitField \<Rightarrow> 32 word \<Rightarrow> BitField" where
  "On b bits = \<lparr>Value = Value b OR bits\<rparr>"

section \<open>Values, tables and the heap\<close>

text \<open>
  Luau tables are reference objects: a value holds the address of a table, and two values
  can hold the same address. A missing key is \<open>nil\<close>, here \<open>None\<close>.
\<close>

type_synonym addr = nat

datatype val = VBool bool | VNum int | VStr string | VRef addr

record tbl =
  hash :: "string \<rightharpoonup> val"
  arr :: "val list"

text \<open>
  A heap cell is a plain table or an instance of one of the two classes. An
  \<open>EmbedBuilder\<close> has the one read-only field \<open>EmbedData\<close>; a \<open>ContentBuilder\<close> has
  \<open>EmbedData\<close> and \<open>Flags\<close>.
\<close>

datatype cell =
    Table tbl
  | EmbedBuilderInst addr
  | ContentBuilderInst addr BitField

record world =
  heap :: "cell list"
  warnings :: "string list"

datatype error = LuaError string

type_synonym result = "(error \<times> world) + world"

definition empty_world :: world where
  "empty_world = \<lparr>heap = [], warnings = []\<rparr>"

definition empty_table :: tbl where
  "empty_table = \<lparr>hash = Map.empty, arr = []\<rparr>"

definition cell_at :: "world \<Rightarrow> addr \<Rightarrow> cell option" where
  "cell_at w a = (if a < length (heap w) then Some (heap w ! a) else None)"

definition table_at :: "world \<Rightarrow> addr \<Rightarrow> tbl option" where
  "table_at w a = (case cell_at w a of Some (Table t) \<Rightarrow> Some t | _ \<Rightarrow> None)"

definition alloc :: "world \<Rightarrow> cell \<Rightarrow> addr \<times> world" where
  "alloc w c = (length (heap w), w\<lparr>heap := heap w @ [c]\<rparr>)"

definition put :: "world \<Rightarrow> addr \<Rightarrow> cell \<Rightarrow> world" where
  "put w a c = w\<lparr>heap := (heap w)[a := c]\<rparr>"

text \<open>
  \<open>index w a k\<close> reads \<open>a[k]\<close>; \<open>set_field w a k v\<close> is the assignment
  \<open>a[k] = v\<close> to a table. Every caller below has read the table at \<open>a\<close> first and
  raises when there is none.
\<close>

definition index :: "world \<Rightarrow> addr \<Rightarrow> string \<Rightarrow> val option" where
  "index w a k = (case table_at w a of Some t \<Rightarrow> hash t k | None \<Rightarrow> None)"

definition set_field :: "world \<Rightarrow> addr \<Rightarrow> string \<Rightarrow> val \<Rightarrow> world" where
  "set_field w a k v =
     (case table_at w a of
        Some t \<Rightarrow> put w a (Table (t\<lparr>hash := (hash t)(k \<mapsto> v)\<rparr>))
      | None \<Rightarrow> w)"

definition warn :: "world \<Rightarrow> string \<Rightarrow> world" where
  "warn w msg = w\<lparr>warnings := warnings w @ [msg]\<rparr>"

definition index_nil :: error where
  "index_nil = LuaError ''attempt to index nil''"

definition table_expected :: error where
  "table_expected = LuaError ''table expected''"

text \<open>\<open>table.clone\<close>: a shallow copy at a fresh address.\<close>

definition table_clone :: "world \<Rightarrow> val \<Rightarrow> (error \<times> world) + (addr \<times> world)" where
  "table_clone w v =
     (case v of
        VRef a \<Rightarrow>
          (case table_at w a of
             Some t \<Rightarrow> Inr (alloc w (Table t))
           | None \<Rightarrow> Inl (table_expected, w))
      | _ \<Rightarrow> Inl (table_expected, w))"

text \<open>\<open>x ?? {}\<close>: the value when it is there, a new empty table otherwise.\<close>

definition or_new_table :: "world \<Rightarrow> val option \<Rightarrow> val \<times> world" where
  "or_new_table w x =
     (case x of
        Some v \<Rightarrow> (v, w)
      | None \<Rightarrow> (let (a, w1) = alloc w (Table empty_table) in (VRef a, w1)))"

section \<open>utility\<close>

text \<open>\<open>IsValidUrl\<close> matches the pattern \<^verbatim>\<open>^https?://\<close>.\<close>

definition IsValidUrl_pattern :: "pattern_item list" where
  "IsValidUrl_pattern =
     [Lit CHR ''h'', Lit CHR ''t'', Lit CHR ''t'', Lit CHR ''p'', Opt CHR ''s'',
      Lit CHR '':'', Lit CHR ''/'', Lit CHR ''/'']"

definition IsValidUrl :: "string \<Rightarrow> bool" where
  "IsValidUrl s = str_match IsValidUrl_pattern s"

text \<open>
  \<open>Append\<close> clones the array and pushes the values onto the clone, one after the other.
\<close>

definition push :: "tbl \<Rightarrow> val \<Rightarrow> tbl" where
  "push t v = t\<lparr>arr := arr t @ [v]\<rparr>"

definition Append :: "world \<Rightarrow> val \<Rightarrow> val list \<Rightarrow> (error \<times> world) + (addr \<times> world)" where
  "Append w array values =
     (case table_clone w array of
        Inl e \<Rightarrow> Inl e
      | Inr (result, w1) \<Rightarrow>
          (case table_at w1 result of
             Some t \<Rightarrow> Inr (result, put w1 result (Table (foldl push t values)))
           | None \<Rightarrow> Inl (table_expected, w1)))"

definition GetUtf8Length :: "string \<Rightarrow> error + nat" where
  "GetUtf8Length value =
     (case utf8_len value of
        Inr valueLength \<Rightarrow> Inr valueLength
      | Inl invalidBytePosition \<Rightarrow>
          Inl (LuaError (''string `'' @ value @ ''` has an invalid byte at position ''
                         @ tostring (int invalidBytePosition))))"

section \<open>EmbedBuilder\<close>

text \<open>
  The patterns \<^verbatim>\<open>^%d%d%d%d%-%d%d%-%d%dT%d%d:%d%d:%d%dZ$\<close> and
  \<^verbatim>\<open>^%d%d%d%d%-%d%d%-%d%dT%d%d:%d%d:%d%d%.%d%d%dZ$\<close>.
\<close>

definition MatchIso8601_pattern :: "pattern_item list" where
  "MatchIso8601_pattern =
     [Digit, Digit, Digit, Digit, Lit CHR ''-'', Digit, Digit, Lit CHR ''-'', Digit, Digit,
      Lit CHR ''T'', Digit, Digit, Lit CHR '':'', Digit, Digit, Lit CHR '':'', Digit, Digit,
      Lit CHR ''Z'', End]"

definition MatchIso8601DiscordTimestamp_pattern :: "pattern_item list" where
  "MatchIso8601DiscordTimestamp_pattern =
     [Digit, Digit, Digit, Digit, Lit CHR ''-'', Digit, Digit, Lit CHR ''-'', Digit, Digit,
      Lit CHR ''T'', Digit, Digit, Lit CHR '':'', Digit, Digit, Lit CHR '':'', Digit, Digit,
      Lit CHR ''.'', Digit, Digit, Digit, Lit CHR ''Z'', End]"

definition IsValidIso8601 :: "string \<Rightarrow> bool" where
  "IsValidIso8601 value = str_match MatchIso8601_pattern value"

definition IsValidIso8601DiscordTimestamp :: "string \<Rightarrow> bool" where
  "IsValidIso8601DiscordTimestamp value = str_match MatchIso8601DiscordTimestamp_pattern value"

definition ConvertToDiscordTimestamp :: "string \<Rightarrow> string" where
  "ConvertToDiscordTimestamp iso8601 = string_sub iso8601 1 (- 2) @ ''.000Z''"

text \<open>
  \<open>IsFieldData\<close> is the run-time check generated from the interface \<open>FieldData\<close>:
  a table whose \<open>name\<close> and \<open>value\<close> are strings and whose \<open>inline\<close> is a boolean
  or missing. \<open>IsArrayOfFieldData\<close> checks every element of an array.
\<close>

definition IsFieldData :: "world \<Rightarrow> val \<Rightarrow> bool" where
  "IsFieldData w v =
     (case v of
        VRef a \<Rightarrow>
          (case table_at w a of
             Some t \<Rightarrow>
               (case hash t ''inline'' of None \<Rightarrow> True | Some (VBool _) \<Rightarrow> True | _ \<Rightarrow> False)
               \<and> (case hash t ''name'' of Some (VStr _) \<Rightarrow> True | _ \<Rightarrow> False)
               \<and> (case hash t ''value'' of Some (VStr _) \<Rightarrow> True | _ \<Rightarrow> False)
           | None \<Rightarrow> False)
      | _ \<Rightarrow> False)"

definition IsArrayOfFieldData :: "world \<Rightarrow> val list \<Rightarrow> bool" where
  "IsArrayOfFieldData w args = list_all (IsFieldData w) args"

text \<open>
  \<open>new EmbedBuilder()\<close>: the document \<open>EmbedData = {}\<close> and the instance that holds
  its address.
\<close>

definition new_EmbedBuilder :: "world \<Rightarrow> addr \<times> world" where
  "new_EmbedBuilder w =
     (let (d, w1) = alloc w (Table empty_table) in alloc w1 (EmbedBuilderInst d))"

text \<open>
  \<open>this.EmbedData\<close> of an \<open>EmbedBuilder\<close>: the address of its document. The result
  is \<open>None\<close> where reading or writing a key of \<open>this.EmbedData\<close> raises in Luau:
  \<open>self\<close> is not an instance, or the document is not a table.
\<close>

definition EmbedData :: "world \<Rightarrow> addr \<Rightarrow> addr option" where
  "EmbedData w self =
     (case cell_at w self of
        Some (EmbedBuilderInst d) \<Rightarrow> (case table_at w d of Some _ \<Rightarrow> Some d | None \<Rightarrow> None)
      | _ \<Rightarrow> None)"

definition EmbedBuilder_Is :: "world \<Rightarrow> val \<Rightarrow> bool" where
  "EmbedBuilder_Is w value =
     (case value of
        VRef a \<Rightarrow> (case cell_at w a of Some (EmbedBuilderInst _) \<Rightarrow> True | _ \<Rightarrow> False)
      | _ \<Rightarrow> False)"

definition SetTitle :: "world \<Rightarrow> addr \<Rightarrow> string \<Rightarrow> result" where
  "SetTitle w self title =
     (case GetUtf8Length title of
        Inl e \<Rightarrow> Inl (e, w)
      | Inr n \<Rightarrow>
          if n > 256 then Inl (LuaError '''title' must be less than 256 characters'', w)
          else (case EmbedData w self of
                  None \<Rightarrow> Inl (index_nil, w)
                | Some d \<Rightarrow> Inr (set_field w d ''title'' (VStr title))))"

definition SetDescription :: "world \<Rightarrow> addr \<Rightarrow> string \<Rightarrow> result" where
  "SetDescription w self description =
     (case GetUtf8Length description of
        Inl e \<Rightarrow> Inl (e, w)
      | Inr n \<Rightarrow>
          if n > 4096
          then Inl (LuaError '''description' must be less than 2048 characters'', w)
          else (case EmbedData w self of
                  None \<Rightarrow> Inl (index_nil, w)
                | Some d \<Rightarrow> Inr (set_field w d ''description'' (VStr description))))"

text \<open>
  The three lines shared by the five setters of \<open>author\<close> and \<open>footer\<close>:
  \<^verbatim>\<open>const sub = table.clone(this.EmbedData[name] ?? {}); sub[key] = v; this.EmbedData[name] = sub\<close>.
\<close>

definition clone_and_replace :: "world \<Rightarrow> addr \<Rightarrow> string \<Rightarrow> string \<Rightarrow> val \<Rightarrow> result" where
  "clone_and_replace w self name key v =
     (case EmbedData w self of
        None \<Rightarrow> Inl (index_nil, w)
      | Some d \<Rightarrow>
          (let (current, w1) = or_new_table w (index w d name) in
           case table_clone w1 current of
             Inl e \<Rightarrow> Inl e
           | Inr (sub, w2) \<Rightarrow> Inr (set_field (set_field w2 sub key v) d name (VRef sub))))"

definition SetAuthorName :: "world \<Rightarrow> addr \<Rightarrow> string \<Rightarrow> result" where
  "SetAuthorName w self authorName =
     (case GetUtf8Length authorName of
        Inl e \<Rightarrow> Inl (e, w)
      | Inr n \<Rightarrow>
          if n > 256 then Inl (LuaError '''authorName' must be less than 256 characters'', w)
          else clone_and_replace w self ''author'' ''name'' (VStr authorName))"

definition SetAuthorUrl :: "world \<Rightarrow> addr \<Rightarrow> string \<Rightarrow> result" where
  "SetAuthorUrl w self authorUrl =
     (if \<not> IsValidUrl authorUrl then Inl (LuaError '''authorUrl' must be a valid URL'', w)
      else clone_and_replace w self ''author'' ''url'' (VStr authorUrl))"

definition SetAuthorIconUrl :: "world \<Rightarrow> addr \<Rightarrow> string \<Rightarrow> result" where
  "SetAuthorIconUrl w self authorIconUrl =
     (if \<not> IsValidUrl authorIconUrl
      then Inl (LuaError '''authorIconUrl' must be a valid URL'', w)
      else clone_and_replace w self ''author'' ''icon_url'' (VStr authorIconUrl))"

definition SetFooterText :: "world \<Rightarrow> addr \<Rightarrow> string \<Rightarrow> result" where
  "SetFooterText w self footerText =
     (case GetUtf8Length footerText of
        Inl e \<Rightarrow> Inl (e, w)
      | Inr n \<Rightarrow>
          if n > 2048 then Inl (LuaError '''footerText' must be less than 2048 characters'', w)
          else clone_and_replace w self ''footer'' ''text'' (VStr footerText))"

definition SetFooterIconUrl :: "world \<Rightarrow> addr \<Rightarrow> string \<Rightarrow> result" where
  "SetFooterIconUrl w self footerIconUrl =
     (if \<not> IsValidUrl footerIconUrl
      then Inl (LuaError '''footerIconUrl' must be a valid URL'', w)
      else clone_and_replace w self ''footer'' ''icon_url'' (VStr footerIconUrl))"

definition SetTimestamp :: "world \<Rightarrow> addr \<Rightarrow> string \<Rightarrow> result" where
  "SetTimestamp w self timestamp =
     (let timestamp1 =
            (if IsValidIso8601 timestamp then ConvertToDiscordTimestamp timestamp else timestamp)
      in if \<not> IsValidIso8601DiscordTimestamp timestamp1
         then Inl (LuaError
                '''timestamp' must be a valid ISO8601 timestamp (YYYY-MM-DDTHH:MM:SS.000Z)'', w)
         else (case EmbedData w self of
                 None \<Rightarrow> Inl (index_nil, w)
               | Some d \<Rightarrow> Inr (set_field w d ''timestamp'' (VStr timestamp1))))"

text \<open>
  The statement \<open>d[name] = Append(d[name] ?? [], ...values)\<close> on a document \<open>d\<close>,
  as \<open>AddFields\<close>, \<open>SetFields\<close> and \<open>ContentBuilder.AddEmbed\<close> write it.
\<close>

definition append_to :: "world \<Rightarrow> addr \<Rightarrow> string \<Rightarrow> val list \<Rightarrow> result" where
  "append_to w d name values =
     (let (array, w1) = or_new_table w (index w d name) in
      case Append w1 array values of
        Inl e \<Rightarrow> Inl e
      | Inr (result, w2) \<Rightarrow> Inr (set_field w2 d name (VRef result)))"

text \<open>The table \<open>{ inline, name, value }\<close>; a missing \<open>inline\<close> leaves the key out.\<close>

definition field_table :: "bool option \<Rightarrow> string \<Rightarrow> string \<Rightarrow> tbl" where
  "field_table inline name value =
     \<lparr>hash = (case inline of
                None \<Rightarrow> Map.empty
              | Some b \<Rightarrow> [''inline'' \<mapsto> VBool b])(''name'' \<mapsto> VStr name, ''value'' \<mapsto> VStr value),
      arr = []\<rparr>"

definition AddField :: "world \<Rightarrow> addr \<Rightarrow> string \<Rightarrow> string \<Rightarrow> bool option \<Rightarrow> result" where
  "AddField w self name value inline =
     (case GetUtf8Length name of
        Inl e \<Rightarrow> Inl (e, w)
      | Inr n \<Rightarrow>
          if n > 256 then Inl (LuaError '''name' must be less than 256 characters'', w)
          else
            (case GetUtf8Length value of
               Inl e \<Rightarrow> Inl (e, w)
             | Inr m \<Rightarrow>
                 if m > 1024 then Inl (LuaError '''value' must be less than 1024 characters'', w)
                 else
                   (case EmbedData w self of
                      None \<Rightarrow> Inl (index_nil, w)
                    | Some d \<Rightarrow>
                        (let (array, w1) = or_new_table w (index w d ''fields'');
                             (field, w2) = alloc w1 (Table (field_table inline name value))
                         in case Append w2 array [VRef field] of
                              Inl e \<Rightarrow> Inl e
                            | Inr (result, w3) \<Rightarrow>
                                Inr (set_field w3 d ''fields'' (VRef result))))))"

definition SetField :: "world \<Rightarrow> addr \<Rightarrow> string \<Rightarrow> string \<Rightarrow> bool option \<Rightarrow> result" where
  "SetField w self name value inline =
     (case GetUtf8Length name of
        Inl e \<Rightarrow> Inl (e, w)
      | Inr n \<Rightarrow>
          if n > 256 then Inl (LuaError '''name' must be less than 256 characters'', w)
          else
            (case GetUtf8Length value of
               Inl e \<Rightarrow> Inl (e, w)
             | Inr m \<Rightarrow>
                 if m > 1024 then Inl (LuaError '''value' must be less than 1024 characters'', w)
                 else
                   (case EmbedData w self of
                      None \<Rightarrow> Inl (index_nil, w)
                    | Some d \<Rightarrow>
                        (let (array, w1) = or_new_table w (index w d ''fields'');
                             (field, w2) = alloc w1 (Table (field_table inline name value))
                         in case Append w2 array [VRef field] of
                              Inl e \<Rightarrow> Inl e
                            | Inr (result, w3) \<Rightarrow>
                                Inr (set_field w3 d ''fields'' (VRef result))))))"

text \<open>
  \<open>AddFields\<close> asserts the shape of its arguments before it appends them; \<open>SetFields\<close>
  appends them as they are.
\<close>

definition AddFields :: "world \<Rightarrow> addr \<Rightarrow> val list \<Rightarrow> result" where
  "AddFields w self args =
     (if \<not> IsArrayOfFieldData w args
      then Inl (LuaError '''args' must be an array of IFieldData'', w)
      else (case EmbedData w self of
              None \<Rightarrow> Inl (index_nil, w)
            | Some d \<Rightarrow> append_to w d ''fields'' args))"

definition SetFields :: "world \<Rightarrow> addr \<Rightarrow> val list \<Rightarrow> result" where
  "SetFields w self args =
     (case EmbedData w self of
        None \<Rightarrow> Inl (index_nil, w)
      | Some d \<Rightarrow> append_to w d ''fields'' args)"

section \<open>ContentBuilder\<close>

text \<open>The two message flags, \<open>1 << 2\<close> and \<open>1 << 12\<close>.\<close>

definition SUPPRESS_EMBEDS :: "32 word" where
  "SUPPRESS_EMBEDS = push_bit 2 1"

definition SUPPRESS_NOTIFICATIONS :: "32 word" where
  "SUPPRESS_NOTIFICATIONS = push_bit 12 1"

text \<open>
  \<open>new ContentBuilder()\<close>: the document \<open>EmbedData = { attachments: [] }\<close>, the empty
  bit field \<open>Flags\<close>, and the instance that holds both.
\<close>

definition new_ContentBuilder :: "world \<Rightarrow> addr \<times> world" where
  "new_ContentBuilder w =
     (let (attachments, w1) = alloc w (Table empty_table);
          (d, w2) = alloc w1 (Table \<lparr>hash = [''attachments'' \<mapsto> VRef attachments], arr = []\<rparr>)
      in alloc w2 (ContentBuilderInst d new_BitField))"

text \<open>
  \<open>this.EmbedData\<close> and \<open>this.Flags\<close> of a \<open>ContentBuilder\<close>; \<open>None\<close> as for
  \<open>EmbedData\<close>.
\<close>

definition ContentBuilder_this :: "world \<Rightarrow> addr \<Rightarrow> (addr \<times> BitField) option" where
  "ContentBuilder_this w self =
     (case cell_at w self of
        Some (ContentBuilderInst d flags) \<Rightarrow>
          (case table_at w d of Some _ \<Rightarrow> Some (d, flags) | None \<Rightarrow> None)
      | _ \<Rightarrow> None)"

definition SetUsername :: "world \<Rightarrow> addr \<Rightarrow> string \<Rightarrow> result" where
  "SetUsername w self username =
     (case GetUtf8Length username of
        Inl e \<Rightarrow> Inl (e, w)
      | Inr n \<Rightarrow>
          if n > 80 then Inl (LuaError ''Username must be less than 80 characters'', w)
          else (case ContentBuilder_this w self of
                  None \<Rightarrow> Inl (index_nil, w)
                | Some (d, flags) \<Rightarrow> Inr (set_field w d ''username'' (VStr username))))"

definition SetContent :: "world \<Rightarrow> addr \<Rightarrow> string \<Rightarrow> result" where
  "SetContent w self content =
     (case GetUtf8Length content of
        Inl e \<Rightarrow> Inl (e, w)
      | Inr n \<Rightarrow>
          if n > 2000 then Inl (LuaError ''Content must be less than 2000 characters'', w)
          else (case ContentBuilder_this w self of
                  None \<Rightarrow> Inl (index_nil, w)
                | Some (d, flags) \<Rightarrow> Inr (set_field w d ''content'' (VStr content))))"

definition SetThread :: "world \<Rightarrow> addr \<Rightarrow> string \<Rightarrow> result" where
  "SetThread w self threadName =
     (case GetUtf8Length threadName of
        Inl e \<Rightarrow> Inl (e, w)
      | Inr n \<Rightarrow>
          if n > 100 then Inl (LuaError ''Thread name must be less than 100 characters'', w)
          else (case ContentBuilder_this w self of
                  None \<Rightarrow> Inl (index_nil, w)
                | Some (d, flags) \<Rightarrow> Inr (set_field w d ''thread_name'' (VStr threadName))))"

definition AddFlag :: "world \<Rightarrow> addr \<Rightarrow> 32 word \<Rightarrow> result" where
  "AddFlag w self flag =
     (case ContentBuilder_this w self of
        None \<Rightarrow> Inl (index_nil, w)
      | Some (d, flags) \<Rightarrow>
          if Intersects flags flag then Inr (warn w ''Flag already set.'')
          else Inr (put w self (ContentBuilderInst d (On flags flag))))"

definition AddEmbed :: "world \<Rightarrow> addr \<Rightarrow> val \<Rightarrow> result" where
  "AddEmbed w self embed' =
     (if \<not> EmbedBuilder_Is w embed' then Inl (LuaError ''Embed must be an EmbedBuilder'', w)
      else
        (case ContentBuilder_this w self of
           None \<Rightarrow> Inl (index_nil, w)
         | Some (d, flags) \<Rightarrow>
             (case embed' of
                VRef e \<Rightarrow>
                  (case cell_at w e of
                     Some (EmbedBuilderInst ed) \<Rightarrow> append_to w d ''embeds'' [VRef ed]
                   | _ \<Rightarrow> Inl (index_nil, w))
              | _ \<Rightarrow> Inl (index_nil, w))))"

text \<open>
  \<open>Serialize\<close> builds the new table \<open>{ ...this.EmbedData, flags: this.Flags.Value }\<close>.
  \<open>SerializeAsJson\<close> and \<open>ToJson\<close> hand the same table to the host's JSON encoder,
  a parameter here.
\<close>

definition Serialize :: "world \<Rightarrow> addr \<Rightarrow> error + tbl" where
  "Serialize w self =
     (case ContentBuilder_this w self of
        None \<Rightarrow> Inl index_nil
      | Some (d, flags) \<Rightarrow>
          (case table_at w d of
             None \<Rightarrow> Inl index_nil
           | Some t \<Rightarrow> Inr (t\<lparr>hash := (hash t)(''flags'' \<mapsto> VNum (uint (Value flags)))\<rparr>)))"

definition SerializeAsJson :: "(world \<Rightarrow> tbl \<Rightarrow> string) \<Rightarrow> world \<Rightarrow> addr \<Rightarrow> error + string" where
  "SerializeAsJson JSONEncode w self =
     (case ContentBuilder_this w self of
        None \<Rightarrow> Inl index_nil
      | Some (d, flags) \<Rightarrow>
          (case table_at w d of
             None \<Rightarrow> Inl index_nil
           | Some t \<Rightarrow>
               Inr (JSONEncode w (t\<lparr>hash := (hash t)(''flags'' \<mapsto> VNum (uint (Value flags)))\<rparr>))))"

definition ToJson :: "(world \<Rightarrow> tbl \<Rightarrow> string) \<Rightarrow> world \<Rightarrow> addr \<Rightarrow> error + string" where
  "ToJson JSONEncode w self =
     (case ContentBuilder_this w self of
        None \<Rightarrow> Inl index_nil
      | Some (d, flags) \<Rightarrow>
          (case table_at w d of
             None \<Rightarrow> Inl index_nil
           | Some t \<Rightarrow>
               Inr (JSONEncode w (t\<lparr>hash := (hash t)(''flags'' \<mapsto> VNum (uint (Value flags)))\<rparr>))))"

section \<open>create-timestamp\<close>

text \<open>The enum \<open>TimestampType\<close>: its members are the numbers 0 to 6.\<close>

definition ShortTime :: int where "ShortTime = 0"
definition LongTime :: int where "LongTime = 1"
definition ShortDate :: int where "ShortDate = 2"
definition LongDate :: int where "LongDate = 3"
definition LongDateWithShortTime :: int where "LongDateWithShortTime = 4"
definition LongDateWithDayOfWeekAndShortTime :: int where "LongDateWithDayOfWeekAndShortTime = 5"
definition Relative :: int where "Relative = 6"

definition CreateTimestampForUnixTimestamp :: "int \<Rightarrow> int \<Rightarrow> error + string" where
  "CreateTimestampForUnixTimestamp timestampType unixTimestamp =
     (if timestampType = ShortTime then Inr (''<t:'' @ tostring unixTimestamp @ '':t>'')
      else if timestampType = LongTime then Inr (''<t:'' @ tostring unixTimestamp @ '':T>'')
      else if timestampType = ShortDate then Inr (''<t:'' @ tostring unixTimestamp @ '':d>'')
      else if timestampType = LongDate then Inr (''<t:'' @ tostring unixTimestamp @ '':D>'')
      else if timestampType = LongDateWithShortTime
      then Inr (''<t:'' @ tostring unixTimestamp @ '':f>'')
      else if timestampType = LongDateWithDayOfWeekAndShortTime
      then Inr (''<t:'' @ tostring unixTimestamp @ '':F>'')
      else if timestampType = Relative then Inr (''<t:'' @ tostring unixTimestamp @ '':R>'')
      else Inl (LuaError (''Invalid timestamp type '' @ tostring timestampType)))"

section \<open>Reading documents\<close>

text \<open>
  \<open>sub_index w d name key\<close> reads \<open>d[name][key]\<close>; \<open>last_of w d name\<close> is the address
  of the table that is the last element of the array \<open>d[name]\<close>.
\<close>

definition sub_index :: "world \<Rightarrow> addr \<Rightarrow> string \<Rightarrow> string \<Rightarrow> val option" where
  "sub_index w d name key =
     (case index w d name of Some (VRef a) \<Rightarrow> index w a key | _ \<Rightarrow> None)"

definition elements :: "world \<Rightarrow> addr \<Rightarrow> string \<Rightarrow> val list option" where
  "elements w d name =
     (case index w d name of
        Some (VRef a) \<Rightarrow> (case table_at w a of Some t \<Rightarrow> Some (arr t) | None \<Rightarrow> None)
      | _ \<Rightarrow> None)"

definition last_of :: "world \<Rightarrow> addr \<Rightarrow> string \<Rightarrow> addr option" where
  "last_of w d name =
     (case elements w d name of
        Some vs \<Rightarrow> (if vs = [] then None else (case last vs of VRef f \<Rightarrow> Some f | _ \<Rightarrow> None))
      | None \<Rightarrow> None)"

text \<open>
  A key that holds a table or nothing: the state of \<open>author\<close>, \<open>footer\<close>,
  \<open>fields\<close> and \<open>embeds\<close> in every document the builders make.
\<close>

definition table_or_nil :: "world \<Rightarrow> addr \<Rightarrow> string \<Rightarrow> bool" where
  "table_or_nil w d name =
     (case index w d name of
        None \<Rightarrow> True
      | Some (VRef a) \<Rightarrow> (case table_at w a of Some _ \<Rightarrow> True | None \<Rightarrow> False)
      | Some _ \<Rightarrow> False)"

text \<open>The world after a call, whether it returned or raised.\<close>

definition world_of :: "result \<Rightarrow> world" where
  "world_of r = (case r of Inl (e, w) \<Rightarrow> w | Inr w \<Rightarrow> w)"

section \<open>The setters of the sub-objects\<close>

text \<open>
  The five setters that write one key of \<open>author\<close> or \<open>footer\<close>, named so that a
  statement can range over all of them: which one is called, the sub-object it replaces
  and the key it writes.
\<close>

datatype sub_setter = AuthorName | AuthorUrl | AuthorIconUrl | FooterText | FooterIconUrl

fun call_sub_setter :: "sub_setter \<Rightarrow> world \<Rightarrow> addr \<Rightarrow> string \<Rightarrow> result" where
  "call_sub_setter AuthorName w self x = SetAuthorName w self x"
| "call_sub_setter AuthorUrl w self x = SetAuthorUrl w self x"
| "call_sub_setter AuthorIconUrl w self x = SetAuthorIconUrl w self x"
| "call_sub_setter FooterText w self x = SetFooterText w self x"
| "call_sub_setter FooterIconUrl w self x = SetFooterIconUrl w self x"

fun sub_object :: "sub_setter \<Rightarrow> string" where
  "sub_object AuthorName = ''author''"
| "sub_object AuthorUrl = ''author''"
| "sub_object AuthorIconUrl = ''author''"
| "sub_object FooterText = ''footer''"
| "sub_object FooterIconUrl = ''footer''"

fun sub_key :: "sub_setter \<Rightarrow> string" where
  "sub_key AuthorName = ''name''"
| "sub_key AuthorUrl = ''url''"
| "sub_key AuthorIconUrl = ''icon_url''"
| "sub_key FooterText = ''text''"
| "sub_key FooterIconUrl = ''icon_url''"

section \<open>Reachable worlds\<close>

text \<open>
  The worlds a program can reach with the builders: it starts with no objects, makes plain
  tables of its own, makes builders, and calls their methods with any arguments; a call
  that raises leaves the world it had reached.
\<close>

inductive reachable :: "world \<Rightarrow> bool" where
  start: "reachable empty_world"
| new_table: "reachable w \<Longrightarrow> reachable (snd (alloc w (Table t)))"
| new_EmbedBuilder: "reachable w \<Longrightarrow> reachable (snd (new_EmbedBuilder w))"
| new_ContentBuilder: "reachable w \<Longrightarrow> reachable (snd (new_ContentBuilder w))"
| SetTitle: "reachable w \<Longrightarrow> reachable (world_of (SetTitle w e s))"
| SetDescription: "reachable w \<Longrightarrow> reachable (world_of (SetDescription w e s))"
| sub_setter: "reachable w \<Longrightarrow> reachable (world_of (call_sub_setter f w e s))"
| SetTimestamp: "reachable w \<Longrightarrow> reachable (world_of (SetTimestamp w e s))"
| AddField: "reachable w \<Longrightarrow> reachable (world_of (AddField w e s s' inline))"
| SetField: "reachable w \<Longrightarrow> reachable (world_of (SetField w e s s' inline))"
| AddFields: "reachable w \<Longrightarrow> reachable (world_of (AddFields w e args))"
| SetFields: "reachable w \<Longrightarrow> reachable (world_of (SetFields w e args))"
| SetUsername: "reachable w \<Longrightarrow> reachable (world_of (SetUsername w c s))"
| SetContent: "reachable w \<Longrightarrow> reachable (world_of (SetContent w c s))"
| SetThread: "reachable w \<Longrightarrow> reachable (world_of (SetThread w c s))"
| AddFlag: "reachable w \<Longrightarrow> reachable (world_of (AddFlag w c flag))"
| AddEmbed: "reachable w \<Longrightarrow> reachable (world_of (AddEmbed w c v))"

text \<open>
  What the theorems below ask of a builder: its document is a table, and the keys that
  hold sub-objects or arrays hold tables or nothing.
\<close>

definition well_formed :: "world \<Rightarrow> bool" where
  "well_formed w =
     (\<forall>a. case cell_at w a of
            Some (EmbedBuilderInst d) \<Rightarrow>
              EmbedData w a = Some d \<and> table_or_nil w d ''author''
              \<and> table_or_nil w d ''footer'' \<and> table_or_nil w d ''fields''
          | Some (ContentBuilderInst m flags) \<Rightarrow>
              ContentBuilder_this w a = Some (m, flags) \<and> table_or_nil w m ''embeds''
          | _ \<Rightarrow> True)"

text \<open>
  \<open>extends w w'\<close>: every table of \<open>w\<close> is a table of \<open>w'\<close> whose four keys for
  sub-objects and arrays are as before or hold a table; the instances of \<open>w\<close> are those
  of \<open>w'\<close>, with the same documents.
\<close>

definition special :: "string set" where
  "special = {''author'', ''footer'', ''fields'', ''embeds''}"

definition extends :: "world \<Rightarrow> world \<Rightarrow> bool" where
  "extends w w' =
     ((\<forall>a t. table_at w a = Some t \<longrightarrow>
         (\<exists>t'. table_at w' a = Some t'
            \<and> (\<forall>k\<in>special. hash t' k = hash t k
                  \<or> (\<exists>b. hash t' k = Some (VRef b) \<and> table_at w' b \<noteq> None))))
    \<and> (\<forall>a d. cell_at w' a = Some (EmbedBuilderInst d) \<longleftrightarrow> cell_at w a = Some (EmbedBuilderInst d))
    \<and> (\<forall>a m. (\<exists>f. cell_at w' a = Some (ContentBuilderInst m f))
             \<longleftrightarrow> (\<exists>f. cell_at w a = Some (ContentBuilderInst m f))))"

section \<open>Concrete runs\<close>

text \<open>
  A new \<open>EmbedBuilder\<close> in the empty world: its document is at address 0, the instance
  at address 1. Then \<open>SetAuthorUrl\<close>, then \<open>SetAuthorName\<close>.
\<close>

definition fresh_embed :: world where
  "fresh_embed = snd (new_EmbedBuilder empty_world)"

definition after_author_url :: world where
  "after_author_url = world_of (SetAuthorUrl fresh_embed 1 ''https://a.example'')"

definition after_author_name :: world where
  "after_author_name = world_of (SetAuthorName after_author_url 1 ''Ann'')"

text \<open>
  A new \<open>EmbedBuilder\<close> and then a new \<open>ContentBuilder\<close>: the embed's document at
  address 0 and its instance at 1, the message's \<open>attachments\<close> at 2, its document at 3
  and its instance at 4.
\<close>

definition two_builders :: world where
  "two_builders = snd (new_ContentBuilder fresh_embed)"

text \<open>The message builder of \<open>two_builders\<close> after \<open>AddFlag(SUPPRESS_EMBEDS)\<close>.\<close>

definition flagged :: world where
  "flagged = world_of (AddFlag two_builders 4 SUPPRESS_EMBEDS)"

text \<open>
  In \<open>two_builders\<close>, the embed builder is added to the message; then the title of the
  embed builder is set.
\<close>

definition after_add_embed :: world where
  "after_add_embed = world_of (AddEmbed two_builders 4 (VRef 1))"

definition after_set_title :: world where
  "after_set_title = world_of (SetTitle after_add_embed 1 ''x'')"

text \<open>
  A new \<open>EmbedBuilder\<close> and the table \<open>{ name = "n" }\<close>, which has no \<open>value\<close>, at
  address 2; then \<open>SetFields\<close> with that table as its one argument.
\<close>

definition with_bad_field :: world where
  "with_bad_field = snd (alloc fresh_embed (Table \<lparr>hash = [''name'' \<mapsto> VStr ''n''], arr = []\<rparr>))"

definition after_set_fields :: world where
  "after_set_fields = world_of (SetFields with_bad_field 1 [VRef 2])"





section \<open>Properties of the host primitives\<close>

lemma decimal_nat_numeral:
  "decimal_nat (numeral k) =
     (if numeral k < (10::nat) then [digit_char (numeral k)]
      else decimal_nat (numeral k div 10) @ [digit_char (numeral k mod 10)])"
  by (rule decimal_nat.simps)

lemma decimal_nat_0: "decimal_nat 0 = ''0''"
  by (simp add: decimal_nat.simps digit_char_def)

lemma decimal_nat_Suc_0: "decimal_nat (Suc 0) = ''1''"
  by (simp add: decimal_nat.simps digit_char_def)

lemmas decimal_eval =
  decimal_def decimal_nat_numeral decimal_nat_0 decimal_nat_Suc_0 digit_char_def

lemma bit_length_numeral: "bit_length (numeral k) = Suc (bit_length (numeral k div 2))"
  by (subst bit_length.simps) simp

lemma bit_length_0: "bit_length 0 = 0"
  by (simp add: bit_length.simps)

lemma bit_length_Suc_0: "bit_length (Suc 0) = Suc 0"
  by (subst bit_length.simps) (simp add: bit_length_0)

lemmas bit_length_eval = bit_length_numeral bit_length_0 bit_length_Suc_0

lemma scale_numeral:
  "scale n (numeral k) = (if feasible n (numeral k) then numeral k else scale n (pred_numeral k))"
  by (simp add: numeral_eq_Suc)


text \<open>
  The double \<open>2^63\<close>: its neighbours are \<open>2^63 - 1024\<close> and \<open>2^63 + 2048\<close>, every decimal
  from \<open>2^63 - 512\<close> to \<open>2^63 + 1024\<close> reads back as it, and the shortest of them is
  9223372036854776000.
\<close>

lemma bit_length_2_63: "bit_length 9223372036854775808 = 64"
  by (simp add: bit_length_eval)

lemma is_double_2_63: "is_double 9223372036854775808"
  by (simp add: is_double_def bit_length_2_63)

lemma reads_back_2_63:
  "reads_back 9223372036854775808 c \<longleftrightarrow> 9223372036854775296 \<le> c \<and> c \<le> 9223372036854776832"
  by (simp add: reads_back_def bit_length_2_63 Let_def)

lemma scale_2_63: "scale 9223372036854775808 64 = 3"
  by (simp add: scale_numeral feasible_def reads_back_2_63 Let_def)

lemma shortest_2_63: "shortest 9223372036854775808 = 9223372036854776000"
  by (simp add: shortest_def bit_length_2_63 scale_2_63 nearest_def reads_back_2_63 Let_def)

lemma tostring_2_63: "tostring 9223372036854775808 = ''9223372036854776000''"
  by (simp add: tostring_def num2str_def shortest_2_63 Let_def decimal_eval)

lemma decimal_2_63: "decimal 9223372036854775808 = ''9223372036854775808''"
  by (simp add: decimal_eval)

lemma string_sub_drop_last: "s \<noteq> [] \<Longrightarrow> string_sub s 1 (- 2) = butlast s"
  by (cases s)
    (auto simp: string_sub_def posrelat_def Let_def butlast_conv_take nat_diff_distrib' Suc_le_eq)

lemma utf8_count_ascii:
  "(of_char x :: nat) < 128 \<Longrightarrow> utf8_count pos n (replicate m x) = Inr (n + m)"
  by (induction m arbitrary: pos n) (simp_all add: utf8_decode_def)

lemma GetUtf8Length_replicate_x: "GetUtf8Length (replicate m CHR ''x'') = Inr m"
  by (simp add: GetUtf8Length_def utf8_len_def utf8_count_ascii)










lemma str_match_Digit_Cons: "str_match (Digit # p) s \<longleftrightarrow> (\<exists>c cs. s = c # cs \<and> is_digit c \<and> str_match p cs)"
  by (cases s) auto

lemma str_match_Lit_Cons: "str_match (Lit x # p) s \<longleftrightarrow> (\<exists>cs. s = x # cs \<and> str_match p cs)"
  by (cases s) auto

lemma str_match_End: "str_match [End] s \<longleftrightarrow> s = []"
  by simp

lemma is_digit_0: "is_digit CHR ''0''"
  by (simp add: is_digit_def)

section \<open>The heap\<close>

lemma fst_alloc: "fst (alloc w c) = length (heap w)"
  by (simp add: alloc_def)

lemma heap_alloc: "heap (snd (alloc w c)) = heap w @ [c]"
  by (simp add: alloc_def)

lemma warnings_alloc: "warnings (snd (alloc w c)) = warnings w"
  by (simp add: alloc_def)

lemma cell_at_alloc:
  "cell_at (snd (alloc w c)) a = (if a = length (heap w) then Some c else cell_at w a)"
  by (simp add: cell_at_def alloc_def nth_append)

lemma cell_at_fresh: "cell_at w (length (heap w)) = None"
  by (simp add: cell_at_def)

lemma table_at_alloc:
  "table_at (snd (alloc w (Table t))) a = (if a = length (heap w) then Some t else table_at w a)"
  by (simp add: table_at_def cell_at_alloc)

lemma table_at_alloc_instance:
  "(\<And>t. c \<noteq> Table t) \<Longrightarrow> table_at (snd (alloc w c)) a = table_at w a"
  by (cases c) (auto simp: table_at_def cell_at_alloc cell_at_fresh)

lemma cell_at_put:
  "cell_at (put w a c) b = (if b = a \<and> a < length (heap w) then Some c else cell_at w b)"
  by (simp add: cell_at_def put_def nth_list_update)

lemma table_at_put:
  "table_at (put w a (Table t)) b = (if b = a \<and> a < length (heap w) then Some t else table_at w b)"
  by (simp add: table_at_def cell_at_put)

lemma length_heap_put: "length (heap (put w a c)) = length (heap w)"
  by (simp add: put_def)

lemma warnings_put: "warnings (put w a c) = warnings w"
  by (simp add: put_def)

lemma table_at_length: "table_at w a = Some t \<Longrightarrow> a < length (heap w)"
  by (simp add: table_at_def cell_at_def split: if_splits)

lemma table_at_cell: "table_at w a = Some t \<longleftrightarrow> cell_at w a = Some (Table t)"
  by (auto simp: table_at_def split: option.splits cell.splits)

lemma table_at_same_cell: "cell_at w' a = cell_at w a \<Longrightarrow> table_at w' a = table_at w a"
  by (simp add: table_at_def)

lemma set_field_put:
  "table_at w a = Some t \<Longrightarrow> set_field w a k v = put w a (Table (t\<lparr>hash := (hash t)(k \<mapsto> v)\<rparr>))"
  by (simp add: set_field_def)

lemma table_at_set_field:
  "table_at w a = Some t \<Longrightarrow>
     table_at (set_field w a k v) b
       = (if b = a then Some (t\<lparr>hash := (hash t)(k \<mapsto> v)\<rparr>) else table_at w b)"
  by (auto simp: set_field_put table_at_put dest: table_at_length)

lemma cell_at_set_field: "b \<noteq> a \<Longrightarrow> cell_at (set_field w a k v) b = cell_at w b"
  by (simp add: set_field_def cell_at_put split: option.splits)

lemma cell_at_set_field_same:
  "table_at w a = Some t \<Longrightarrow>
     cell_at (set_field w a k v) a = Some (Table (t\<lparr>hash := (hash t)(k \<mapsto> v)\<rparr>))"
  using table_at_set_field [of w a t k v a] by (simp add: table_at_cell)

lemma length_heap_set_field: "length (heap (set_field w a k v)) = length (heap w)"
  by (simp add: set_field_def length_heap_put split: option.splits)

lemma warnings_set_field: "warnings (set_field w a k v) = warnings w"
  by (simp add: set_field_def warnings_put split: option.splits)

lemma index_set_field:
  "table_at w a \<noteq> None \<Longrightarrow>
     index (set_field w a k v) b j = (if b = a \<and> j = k then Some v else index w b j)"
  by (auto simp: index_def set_field_def table_at_put dest: table_at_length)

lemma index_alloc:
  "a < length (heap w) \<Longrightarrow> index (snd (alloc w c)) a k = index w a k"
  by (simp add: index_def table_at_def cell_at_alloc)

lemma index_alloc_new:
  "index (snd (alloc w (Table t))) (length (heap w)) k = hash t k"
  by (simp add: index_def table_at_alloc)

lemma index_Some_table: "index w a k = Some v \<Longrightarrow> table_at w a \<noteq> None"
  by (auto simp: index_def split: option.splits)

lemma index_same_cell: "cell_at w' a = cell_at w a \<Longrightarrow> index w' a k = index w a k"
  by (simp add: index_def table_at_def)

lemma hash_empty_table: "hash empty_table k = None"
  by (simp add: empty_table_def)

lemma cell_at_warn: "cell_at (warn w msg) a = cell_at w a"
  by (simp add: warn_def cell_at_def)

lemma table_at_warn: "table_at (warn w msg) a = table_at w a"
  by (simp add: table_at_def cell_at_warn)

lemma world_of_Inl: "world_of (Inl (e, w)) = w"
  by (simp add: world_of_def)

lemma world_of_Inr: "world_of (Inr w) = w"
  by (simp add: world_of_def)

lemma table_or_nil_cases:
  assumes "table_or_nil w d name"
  obtains "index w d name = None"
  | a t where "index w d name = Some (VRef a)" and "table_at w a = Some t"
  using assms by (auto simp: table_or_nil_def split: option.splits val.splits)

lemma table_or_nil_hash:
  "table_at w d = Some t \<Longrightarrow>
     table_or_nil w d k
       \<longleftrightarrow> (hash t k = None \<or> (\<exists>b. hash t k = Some (VRef b) \<and> table_at w b \<noteq> None))"
  by (auto simp: table_or_nil_def index_def split: option.splits val.splits)

lemma table_or_nil_absent: "index w d k = None \<Longrightarrow> table_or_nil w d k"
  by (simp add: table_or_nil_def)

lemma table_or_nil_same:
  assumes "\<And>a. table_at w' a = table_at w a"
  shows "table_or_nil w' d k = table_or_nil w d k"
  unfolding table_or_nil_def index_def assms ..

lemma elements_index:
  "index w d name = Some (VRef r) \<Longrightarrow> table_at w r = Some t \<Longrightarrow> elements w d name = Some (arr t)"
  by (simp add: elements_def)

lemma elements_Some_table:
  "elements w d name = Some vs \<Longrightarrow> index w d name = Some (VRef r) \<Longrightarrow> table_at w r \<noteq> None"
  by (simp add: elements_def split: option.splits)

lemma elements_same:
  assumes "index w' m name = index w m name"
    and "\<And>r. index w m name = Some (VRef r) \<Longrightarrow> table_at w' r = table_at w r"
  shows "elements w' m name = elements w m name"
  using assms by (auto simp: elements_def split: option.splits val.splits)

lemma last_of_elements:
  "elements w d name = Some (vs @ [VRef f]) \<Longrightarrow> last_of w d name = Some f"
  by (simp add: last_of_def)

subsection \<open>The documents of the builders\<close>

lemma EmbedData_table: "EmbedData w self = Some d \<Longrightarrow> table_at w d \<noteq> None"
  by (auto simp: EmbedData_def split: option.splits cell.splits)

lemma EmbedData_cell: "EmbedData w self = Some d \<Longrightarrow> cell_at w self = Some (EmbedBuilderInst d)"
  by (auto simp: EmbedData_def split: option.splits cell.splits)

lemma EmbedData_iff:
  "EmbedData w e = Some d \<longleftrightarrow> cell_at w e = Some (EmbedBuilderInst d) \<and> table_at w d \<noteq> None"
  by (auto simp: EmbedData_def split: option.splits cell.splits)

lemma ContentBuilder_this_table:
  "ContentBuilder_this w c = Some (m, flags) \<Longrightarrow> table_at w m \<noteq> None"
  by (auto simp: ContentBuilder_this_def split: option.splits cell.splits)

lemma ContentBuilder_this_cell:
  "ContentBuilder_this w c = Some (m, flags) \<Longrightarrow> cell_at w c = Some (ContentBuilderInst m flags)"
  by (auto simp: ContentBuilder_this_def split: option.splits cell.splits)

lemma ContentBuilder_this_iff:
  "ContentBuilder_this w c = Some (m, f)
     \<longleftrightarrow> cell_at w c = Some (ContentBuilderInst m f) \<and> table_at w m \<noteq> None"
  by (auto simp: ContentBuilder_this_def split: option.splits cell.splits)

lemma ContentBuilder_this_warn: "ContentBuilder_this (warn w msg) c = ContentBuilder_this w c"
  by (simp add: ContentBuilder_this_def cell_at_warn table_at_warn split: option.splits cell.splits)

lemma ContentBuilder_this_put:
  assumes "ContentBuilder_this w c = Some (m, flags)"
  shows "ContentBuilder_this (put w c (ContentBuilderInst m flags')) c = Some (m, flags')"
proof -
  from assms have cc: "cell_at w c = Some (ContentBuilderInst m flags)"
    by (rule ContentBuilder_this_cell)
  then have cl: "c < length (heap w)"
    by (simp add: cell_at_def split: if_splits)
  from assms obtain t where t: "table_at w m = Some t"
    using ContentBuilder_this_table by fastforce
  with cc have "m \<noteq> c"
    by (auto simp: table_at_cell)
  with t have "table_at (put w c (ContentBuilderInst m flags')) m = Some t"
    by (simp add: table_at_def cell_at_put)
  with cl show ?thesis
    by (simp add: ContentBuilder_this_def cell_at_put)
qed

lemma EmbedBuilder_Is_cases:
  "EmbedBuilder_Is w v \<longleftrightarrow> (\<exists>e d. v = VRef e \<and> cell_at w e = Some (EmbedBuilderInst d))"
  by (auto simp: EmbedBuilder_Is_def split: val.splits option.splits cell.splits)

section \<open>The concrete runs\<close>

lemmas heap_eval =
  alloc_def empty_world_def empty_table_def cell_at_def table_at_def index_def set_field_def
  put_def or_new_table_def table_clone_def world_of_def table_or_nil_def sub_index_def
  elements_def last_of_def Append_def push_def warn_def append_to_def

lemmas string_eval =
  GetUtf8Length_def utf8_len_def utf8_decode_def IsValidUrl_def IsValidUrl_pattern_def

lemma fresh_embed:
  "fresh_embed = \<lparr>heap = [Table empty_table, EmbedBuilderInst 0], warnings = []\<rparr>"
  by (simp add: fresh_embed_def new_EmbedBuilder_def heap_eval)

lemma two_builders:
  "two_builders =
     \<lparr>heap = [Table empty_table, EmbedBuilderInst 0, Table empty_table,
              Table \<lparr>hash = [''attachments'' \<mapsto> VRef 2], arr = []\<rparr>,
              ContentBuilderInst 3 new_BitField],
      warnings = []\<rparr>"
  by (simp add: two_builders_def new_ContentBuilder_def fresh_embed alloc_def numeral_2_eq_2)

lemma flagged:
  "flagged =
     \<lparr>heap = [Table empty_table, EmbedBuilderInst 0, Table empty_table,
              Table \<lparr>hash = [''attachments'' \<mapsto> VRef 2], arr = []\<rparr>,
              ContentBuilderInst 3 \<lparr>Value = 4\<rparr>],
      warnings = []\<rparr>"
  by (simp add: flagged_def two_builders AddFlag_def ContentBuilder_this_def heap_eval
      Intersects_def On_def new_BitField_def SUPPRESS_EMBEDS_def)

lemma with_bad_field:
  "with_bad_field =
     \<lparr>heap = [Table empty_table, EmbedBuilderInst 0,
              Table \<lparr>hash = [''name'' \<mapsto> VStr ''n''], arr = []\<rparr>],
      warnings = []\<rparr>"
  by (simp add: with_bad_field_def fresh_embed alloc_def)

section \<open>The timestamp formatter\<close>

lemmas TimestampType_defs =
  ShortTime_def LongTime_def ShortDate_def LongDate_def LongDateWithShortTime_def
  LongDateWithDayOfWeekAndShortTime_def Relative_def

text \<open>
  Claim C7 says that the number is written in full for every integer \<open>u\<close>. The timestamp
  is a double and the template literal formats it with \<open>tostring\<close>: at \<open>u = 2^63\<close>, which
  is a double, the result has the digits 9223372036854776000 and not 9223372036854775808.
\<close>

theorem CreateTimestampForUnixTimestamp_counterexample:
  "is_double 9223372036854775808
   \<and> CreateTimestampForUnixTimestamp Relative 9223372036854775808
       = Inr ''<t:9223372036854776000:R>''
   \<and> CreateTimestampForUnixTimestamp Relative 9223372036854775808
       \<noteq> Inr (''<t:'' @ decimal 9223372036854775808 @ '':'' @ ''R'' @ ''>'')"
  by (simp add: CreateTimestampForUnixTimestamp_def TimestampType_defs is_double_2_63
      tostring_2_63 decimal_2_63)



section \<open>Timestamps of an embed\<close>

lemma IsValidIso8601_shape:
  "IsValidIso8601 ts \<longleftrightarrow>
     (\<exists>y1 y2 y3 y4 m1 m2 d1 d2 h1 h2 n1 n2 s1 s2.
        ts = [y1, y2, y3, y4, CHR ''-'', m1, m2, CHR ''-'', d1, d2, CHR ''T'', h1, h2,
              CHR '':'', n1, n2, CHR '':'', s1, s2, CHR ''Z'']
        \<and> list_all is_digit [y1, y2, y3, y4, m1, m2, d1, d2, h1, h2, n1, n2, s1, s2])"
  unfolding IsValidIso8601_def MatchIso8601_pattern_def
  by (simp only: str_match_Digit_Cons str_match_Lit_Cons str_match_End) auto

lemma IsValidIso8601DiscordTimestamp_shape:
  "IsValidIso8601DiscordTimestamp ts \<longleftrightarrow>
     (\<exists>y1 y2 y3 y4 m1 m2 d1 d2 h1 h2 n1 n2 s1 s2 f1 f2 f3.
        ts = [y1, y2, y3, y4, CHR ''-'', m1, m2, CHR ''-'', d1, d2, CHR ''T'', h1, h2,
              CHR '':'', n1, n2, CHR '':'', s1, s2, CHR ''.'', f1, f2, f3, CHR ''Z'']
        \<and> list_all is_digit [y1, y2, y3, y4, m1, m2, d1, d2, h1, h2, n1, n2, s1, s2, f1, f2, f3])"
  unfolding IsValidIso8601DiscordTimestamp_def MatchIso8601DiscordTimestamp_pattern_def
  by (simp only: str_match_Digit_Cons str_match_Lit_Cons str_match_End) auto

lemma IsValidIso8601_length: "IsValidIso8601 ts \<Longrightarrow> length ts = 20"
  by (auto simp: IsValidIso8601_shape)

lemma IsValidIso8601DiscordTimestamp_length: "IsValidIso8601DiscordTimestamp ts \<Longrightarrow> length ts = 24"
  by (auto simp: IsValidIso8601DiscordTimestamp_shape)

lemma ConvertToDiscordTimestamp_butlast:
  "IsValidIso8601 ts \<Longrightarrow> ConvertToDiscordTimestamp ts = butlast ts @ ''.000Z''"
proof -
  assume "IsValidIso8601 ts"
  then have "ts \<noteq> []"
    using IsValidIso8601_length [of ts] by auto
  then show ?thesis
    by (simp add: ConvertToDiscordTimestamp_def string_sub_drop_last)
qed

lemma ConvertToDiscordTimestamp_valid:
  "IsValidIso8601 ts \<Longrightarrow> IsValidIso8601DiscordTimestamp (ConvertToDiscordTimestamp ts)"
proof -
  assume v: "IsValidIso8601 ts"
  then obtain y1 y2 y3 y4 m1 m2 d1 d2 h1 h2 n1 n2 s1 s2 where
    ts: "ts = [y1, y2, y3, y4, CHR ''-'', m1, m2, CHR ''-'', d1, d2, CHR ''T'', h1, h2,
              CHR '':'', n1, n2, CHR '':'', s1, s2, CHR ''Z'']"
    and dg: "list_all is_digit [y1, y2, y3, y4, m1, m2, d1, d2, h1, h2, n1, n2, s1, s2]"
    unfolding IsValidIso8601_shape by blast
  have "ConvertToDiscordTimestamp ts =
      [y1, y2, y3, y4, CHR ''-'', m1, m2, CHR ''-'', d1, d2, CHR ''T'', h1, h2,
       CHR '':'', n1, n2, CHR '':'', s1, s2, CHR ''.'', CHR ''0'', CHR ''0'', CHR ''0'', CHR ''Z'']"
    unfolding ConvertToDiscordTimestamp_butlast [OF v] by (simp add: ts)
  with dg show ?thesis
    unfolding IsValidIso8601DiscordTimestamp_shape by (simp add: is_digit_0)
qed

text \<open>
  Claim C3. On a builder whose document is \<open>d\<close>, \<open>SetTimestamp\<close> given the
  whole-second form stores the string without its last character followed by \<open>.000Z\<close>;
  given the millisecond form it stores the string as it is; given a string of neither shape
  it raises the timestamp error and the world is the one before the call.
\<close>

theorem SetTimestamp_shapes:
  assumes "EmbedData w self = Some d"
  shows "(IsValidIso8601 ts \<longrightarrow>
            (\<exists>w'. SetTimestamp w self ts = Inr w'
                \<and> index w' d ''timestamp'' = Some (VStr (string_sub ts 1 (- 2) @ ''.000Z''))))
       \<and> (IsValidIso8601DiscordTimestamp ts \<longrightarrow>
            (\<exists>w'. SetTimestamp w self ts = Inr w' \<and> index w' d ''timestamp'' = Some (VStr ts)))
       \<and> (\<not> IsValidIso8601 ts \<and> \<not> IsValidIso8601DiscordTimestamp ts \<longrightarrow>
            SetTimestamp w self ts
              = Inl (LuaError
                  '''timestamp' must be a valid ISO8601 timestamp (YYYY-MM-DDTHH:MM:SS.000Z)'', w))"
proof (intro conjI impI)
  assume v: "IsValidIso8601 ts"
  from ConvertToDiscordTimestamp_valid [OF v] v assms
  show "\<exists>w'. SetTimestamp w self ts = Inr w'
            \<and> index w' d ''timestamp'' = Some (VStr (string_sub ts 1 (- 2) @ ''.000Z''))"
    by (simp add: SetTimestamp_def index_set_field EmbedData_table ConvertToDiscordTimestamp_def)
next
  assume v: "IsValidIso8601DiscordTimestamp ts"
  then have "\<not> IsValidIso8601 ts"
    using IsValidIso8601_length [of ts] IsValidIso8601DiscordTimestamp_length [of ts] by auto
  with v assms
  show "\<exists>w'. SetTimestamp w self ts = Inr w' \<and> index w' d ''timestamp'' = Some (VStr ts)"
    by (simp add: SetTimestamp_def index_set_field EmbedData_table)
next
  assume "\<not> IsValidIso8601 ts \<and> \<not> IsValidIso8601DiscordTimestamp ts"
  then show "SetTimestamp w self ts
      = Inl (LuaError
          '''timestamp' must be a valid ISO8601 timestamp (YYYY-MM-DDTHH:MM:SS.000Z)'', w)"
    by (simp add: SetTimestamp_def)
qed

lemma EmbedData_fresh: "EmbedData fresh_embed 1 = Some 0"
  by (simp add: fresh_embed EmbedData_def heap_eval)

theorem SetTimestamp_shapes_witness:
  "EmbedData fresh_embed 1 = Some 0
   \<and> IsValidIso8601 ''2023-07-25T11:12:30Z''
   \<and> (\<exists>w'. SetTimestamp fresh_embed 1 ''2023-07-25T11:12:30Z'' = Inr w'
           \<and> index w' 0 ''timestamp'' = Some (VStr ''2023-07-25T11:12:30.000Z''))
   \<and> IsValidIso8601DiscordTimestamp ''2023-07-25T11:12:30.500Z''
   \<and> (\<exists>w'. SetTimestamp fresh_embed 1 ''2023-07-25T11:12:30.500Z'' = Inr w'
           \<and> index w' 0 ''timestamp'' = Some (VStr ''2023-07-25T11:12:30.500Z''))
   \<and> \<not> IsValidIso8601 ''2023-07-25 11:12:30''
   \<and> \<not> IsValidIso8601DiscordTimestamp ''2023-07-25 11:12:30''
   \<and> SetTimestamp fresh_embed 1 ''2023-07-25 11:12:30''
       = Inl (LuaError
                '''timestamp' must be a valid ISO8601 timestamp (YYYY-MM-DDTHH:MM:SS.000Z)'',
              fresh_embed)"
proof -
  have a: "IsValidIso8601 ''2023-07-25T11:12:30Z''"
    by (simp add: IsValidIso8601_def MatchIso8601_pattern_def is_digit_def)
  have b: "IsValidIso8601DiscordTimestamp ''2023-07-25T11:12:30.500Z''"
    by (simp add: IsValidIso8601DiscordTimestamp_def MatchIso8601DiscordTimestamp_pattern_def
        is_digit_def)
  have c: "\<not> IsValidIso8601 ''2023-07-25 11:12:30''"
    by (simp add: IsValidIso8601_def MatchIso8601_pattern_def is_digit_def)
  have d: "\<not> IsValidIso8601DiscordTimestamp ''2023-07-25 11:12:30''"
    by (simp add: IsValidIso8601DiscordTimestamp_def MatchIso8601DiscordTimestamp_pattern_def
        is_digit_def)
  have e: "string_sub ''2023-07-25T11:12:30Z'' 1 (- 2) @ ''.000Z'' = ''2023-07-25T11:12:30.000Z''"
    by (simp add: string_sub_def posrelat_def)
  show ?thesis
    using SetTimestamp_shapes [OF EmbedData_fresh, of "''2023-07-25T11:12:30Z''"]
      SetTimestamp_shapes [OF EmbedData_fresh, of "''2023-07-25T11:12:30.500Z''"]
      SetTimestamp_shapes [OF EmbedData_fresh, of "''2023-07-25 11:12:30''"]
      a b c d EmbedData_fresh
    unfolding e by blast
qed

lemma clone_and_replace_None:
  assumes e: "EmbedData w e = Some d" and n: "index w d name = None"
  shows "clone_and_replace w e name key v
       = Inr (set_field
               (set_field (snd (alloc (snd (alloc w (Table empty_table))) (Table empty_table)))
                  (Suc (length (heap w))) key v)
               d name (VRef (Suc (length (heap w)))))"
  using assms
  by (simp add: clone_and_replace_def or_new_table_def table_clone_def alloc_def table_at_def
      cell_at_def nth_append)

lemma clone_and_replace_Some:
  assumes e: "EmbedData w e = Some d" and n: "index w d name = Some (VRef a)"
    and t: "table_at w a = Some t"
  shows "clone_and_replace w e name key v
       = Inr (set_field (set_field (snd (alloc w (Table t))) (length (heap w)) key v)
               d name (VRef (length (heap w))))"
  using assms
  by (simp add: clone_and_replace_def or_new_table_def table_clone_def alloc_def)

section \<open>Copy-on-write of the sub-objects\<close>

lemma replace_effect:
  assumes s: "table_at w2 s = Some t0" and d: "table_at w2 d = Some td" and sd: "s \<noteq> d"
  shows "index (set_field (set_field w2 s key v) d name (VRef s)) d name = Some (VRef s)"
    and "index (set_field (set_field w2 s key v) d name (VRef s)) s key = Some v"
    and "j \<noteq> key \<Longrightarrow> index (set_field (set_field w2 s key v) d name (VRef s)) s j = hash t0 j"
    and "j \<noteq> name \<Longrightarrow> index (set_field (set_field w2 s key v) d name (VRef s)) d j = hash td j"
    and "a \<noteq> d \<Longrightarrow> a \<noteq> s \<Longrightarrow>
           cell_at (set_field (set_field w2 s key v) d name (VRef s)) a = cell_at w2 a"
    and "warnings (set_field (set_field w2 s key v) d name (VRef s)) = warnings w2"
proof -
  have d3: "table_at (set_field w2 s key v) d = Some td"
    using sd d by (simp add: table_at_set_field [OF s])
  have s3: "table_at (set_field w2 s key v) s = Some (t0\<lparr>hash := (hash t0)(key \<mapsto> v)\<rparr>)"
    by (simp add: table_at_set_field [OF s])
  show "index (set_field (set_field w2 s key v) d name (VRef s)) d name = Some (VRef s)"
    by (simp add: index_def table_at_set_field [OF d3])
  show "index (set_field (set_field w2 s key v) d name (VRef s)) s key = Some v"
    using sd by (simp add: index_def table_at_set_field [OF d3] s3)
  show "j \<noteq> key \<Longrightarrow> index (set_field (set_field w2 s key v) d name (VRef s)) s j = hash t0 j"
    using sd by (simp add: index_def table_at_set_field [OF d3] s3)
  show "j \<noteq> name \<Longrightarrow> index (set_field (set_field w2 s key v) d name (VRef s)) d j = hash td j"
    by (simp add: index_def table_at_set_field [OF d3])
  show "a \<noteq> d \<Longrightarrow> a \<noteq> s \<Longrightarrow>
           cell_at (set_field (set_field w2 s key v) d name (VRef s)) a = cell_at w2 a"
    by (simp add: cell_at_set_field)
  show "warnings (set_field (set_field w2 s key v) d name (VRef s)) = warnings w2"
    by (simp add: warnings_set_field)
qed

lemma clone_and_replace_effect:
  assumes e: "EmbedData w e = Some d" and ok: "table_or_nil w d name"
  shows "\<exists>w' sub. clone_and_replace w e name key v = Inr w'
       \<and> length (heap w) \<le> sub
       \<and> index w' d name = Some (VRef sub)
       \<and> index w' sub key = Some v
       \<and> (\<forall>j. j \<noteq> key \<longrightarrow> index w' sub j = sub_index w d name j)
       \<and> (\<forall>a. a < length (heap w) \<longrightarrow> a \<noteq> d \<longrightarrow> cell_at w' a = cell_at w a)
       \<and> (\<forall>j. j \<noteq> name \<longrightarrow> index w' d j = index w d j)
       \<and> warnings w' = warnings w"
proof -
  from e obtain td where td: "table_at w d = Some td"
    using EmbedData_table by fastforce
  then have dl: "d < length (heap w)"
    by (rule table_at_length)
  from ok show ?thesis
  proof (cases rule: table_or_nil_cases)
    case 1
    let ?w2 = "snd (alloc (snd (alloc w (Table empty_table))) (Table empty_table))"
    let ?s = "Suc (length (heap w))"
    have t2: "table_at ?w2 ?s = Some empty_table"
      by (simp add: table_at_alloc heap_alloc)
    have t2d: "table_at ?w2 d = Some td"
      using dl td by (simp add: table_at_alloc heap_alloc)
    have sd: "?s \<noteq> d"
      using dl by simp
    note eff = replace_effect [OF t2 t2d sd, where key = key and v = v and name = name]
    define w' where "w' = set_field (set_field ?w2 ?s key v) d name (VRef ?s)"
    have r: "clone_and_replace w e name key v = Inr w'"
      unfolding w'_def by (rule clone_and_replace_None [OF e 1])
    have p1: "index w' d name = Some (VRef ?s)"
      unfolding w'_def by (rule eff)
    have p2: "index w' ?s key = Some v"
      unfolding w'_def by (rule eff)
    have p3: "\<forall>j. j \<noteq> key \<longrightarrow> index w' ?s j = sub_index w d name j"
      unfolding w'_def using eff(3) 1 by (simp add: sub_index_def hash_empty_table)
    have p4: "\<forall>a. a < length (heap w) \<longrightarrow> a \<noteq> d \<longrightarrow> cell_at w' a = cell_at w a"
      unfolding w'_def using eff(5) by (simp add: cell_at_alloc heap_alloc)
    have p5: "\<forall>j. j \<noteq> name \<longrightarrow> index w' d j = index w d j"
      unfolding w'_def using eff(4) td by (simp add: index_def)
    have p6: "warnings w' = warnings w"
      unfolding w'_def using eff(6) by (simp add: warnings_alloc)
    have "length (heap w) \<le> ?s"
      by simp
    with r p1 p2 p3 p4 p5 p6 show ?thesis
      by blast
  next
    case (2 a t)
    let ?w2 = "snd (alloc w (Table t))"
    let ?s = "length (heap w)"
    have t2: "table_at ?w2 ?s = Some t"
      by (simp add: table_at_alloc)
    have t2d: "table_at ?w2 d = Some td"
      using dl td by (simp add: table_at_alloc)
    have sd: "?s \<noteq> d"
      using dl by simp
    note eff = replace_effect [OF t2 t2d sd, where key = key and v = v and name = name]
    define w' where "w' = set_field (set_field ?w2 ?s key v) d name (VRef ?s)"
    have r: "clone_and_replace w e name key v = Inr w'"
      unfolding w'_def by (rule clone_and_replace_Some [OF e 2])
    have p1: "index w' d name = Some (VRef ?s)"
      unfolding w'_def by (rule eff)
    have p2: "index w' ?s key = Some v"
      unfolding w'_def by (rule eff)
    have p3: "\<forall>j. j \<noteq> key \<longrightarrow> index w' ?s j = sub_index w d name j"
      unfolding w'_def using eff(3) 2 by (simp add: sub_index_def index_def)
    have p4: "\<forall>a. a < length (heap w) \<longrightarrow> a \<noteq> d \<longrightarrow> cell_at w' a = cell_at w a"
      unfolding w'_def using eff(5) by (simp add: cell_at_alloc)
    have p5: "\<forall>j. j \<noteq> name \<longrightarrow> index w' d j = index w d j"
      unfolding w'_def using eff(4) td by (simp add: index_def)
    have p6: "warnings w' = warnings w"
      unfolding w'_def using eff(6) by (simp add: warnings_alloc)
    have "length (heap w) \<le> ?s"
      by simp
    with r p1 p2 p3 p4 p5 p6 show ?thesis
      by blast
  qed
qed

lemma clone_and_replace_preserves:
  assumes e: "EmbedData w e = Some d" and ok: "table_or_nil w d name"
    and r: "clone_and_replace w e name key v = Inr w'"
  shows "EmbedData w' e = Some d"
    and "table_or_nil w d other \<Longrightarrow> table_or_nil w' d other"
proof -
  from clone_and_replace_effect [OF e ok, of key v] r obtain sub where
    sub: "length (heap w) \<le> sub"
    and dn: "index w' d name = Some (VRef sub)"
    and sk: "index w' sub key = Some v"
    and frame: "\<forall>a. a < length (heap w) \<longrightarrow> a \<noteq> d \<longrightarrow> cell_at w' a = cell_at w a"
    and keys: "\<forall>j. j \<noteq> name \<longrightarrow> index w' d j = index w d j"
    by auto
  from e have ce: "cell_at w e = Some (EmbedBuilderInst d)"
    by (rule EmbedData_cell)
  from e obtain td where td: "table_at w d = Some td"
    using EmbedData_table by fastforce
  have "e \<noteq> d"
    using ce td by (auto simp: table_at_cell)
  moreover have "e < length (heap w)"
    using ce by (simp add: cell_at_def split: if_splits)
  ultimately have ce': "cell_at w' e = Some (EmbedBuilderInst d)"
    using frame ce by simp
  have d': "table_at w' d \<noteq> None"
    using dn by (rule index_Some_table)
  show "EmbedData w' e = Some d"
    using ce' d' by (auto simp: EmbedData_def)
  show "table_or_nil w' d other" if o: "table_or_nil w d other"
  proof (cases "other = name")
    case True
    have "table_at w' sub \<noteq> None"
      using sk by (rule index_Some_table)
    with dn True show ?thesis
      by (auto simp: table_or_nil_def)
  next
    case False
    then have same: "index w' d other = index w d other"
      using keys by simp
    from o show ?thesis
    proof (cases rule: table_or_nil_cases)
      case 1
      with same show ?thesis
        by (simp add: table_or_nil_def)
    next
      case (2 a t)
      have "table_at w' a \<noteq> None"
      proof (cases "a = d")
        case True
        with d' show ?thesis by simp
      next
        case False
        moreover have "a < length (heap w)"
          using 2(2) by (rule table_at_length)
        ultimately have "cell_at w' a = cell_at w a"
          using frame by simp
        with 2(2) show ?thesis
          by (simp add: table_at_def)
      qed
      with same 2(1) show ?thesis
        by (auto simp: table_or_nil_def)
    qed
  qed
qed

lemma call_sub_setter_clone:
  "call_sub_setter f w e x = Inr w' \<Longrightarrow>
     clone_and_replace w e (sub_object f) (sub_key f) (VStr x) = Inr w'"
  by (cases f)
    (auto simp: SetAuthorName_def SetAuthorUrl_def SetAuthorIconUrl_def SetFooterText_def
      SetFooterIconUrl_def split: sum.splits if_splits)

lemma table_or_nil_sub_object:
  "table_or_nil w d ''author'' \<Longrightarrow> table_or_nil w d ''footer'' \<Longrightarrow> table_or_nil w d (sub_object f)"
  by (cases f) simp_all

text \<open>
  Claim C5. The sub-objects \<open>author\<close> and \<open>footer\<close> are copy-on-write. Let \<open>f\<close> and
  \<open>g\<close> be any two of the five sub-setters. After the call of \<open>f\<close> with \<open>x\<close> one
  reads the sub-object \<open>A\<close> that \<open>f\<close> wrote; then \<open>g\<close> is called with \<open>y\<close>. The
  table \<open>A\<close> is the same before and after the second call: it has the key of \<open>f\<close>
  with \<open>x\<close>, and its other keys are those the sub-object had before the first call.
  The second call puts a table other than \<open>A\<close> in the document; the current document
  has the key of \<open>g\<close> with \<open>y\<close>, and still the key of \<open>f\<close> with \<open>x\<close> unless
  \<open>g\<close> wrote that very key.
\<close>

theorem sub_objects_copy_on_write:
  assumes e: "EmbedData w e = Some d"
    and author: "table_or_nil w d ''author''"
    and footer: "table_or_nil w d ''footer''"
    and first: "call_sub_setter f w e x = Inr w1"
    and A: "index w1 d (sub_object f) = Some (VRef A)"
    and second: "call_sub_setter g w1 e y = Inr w2"
  shows "table_at w2 A = table_at w1 A
       \<and> index w2 A (sub_key f) = Some (VStr x)
       \<and> (\<forall>j. j \<noteq> sub_key f \<longrightarrow> index w2 A j = sub_index w d (sub_object f) j)
       \<and> index w2 d (sub_object g) \<noteq> Some (VRef A)
       \<and> sub_index w2 d (sub_object g) (sub_key g) = Some (VStr y)
       \<and> ((sub_object g, sub_key g) \<noteq> (sub_object f, sub_key f) \<longrightarrow>
            sub_index w2 d (sub_object f) (sub_key f) = Some (VStr x))"
proof -
  note r1 = call_sub_setter_clone [OF first]
  note r2 = call_sub_setter_clone [OF second]
  note okf = table_or_nil_sub_object [OF author footer, of f]
  from clone_and_replace_effect [OF e okf, of "sub_key f" "VStr x"] r1 A
  have A_new: "length (heap w) \<le> A"
    and A_key: "index w1 A (sub_key f) = Some (VStr x)"
    and A_old: "\<forall>j. j \<noteq> sub_key f \<longrightarrow> index w1 A j = sub_index w d (sub_object f) j"
    by auto
  have e1: "EmbedData w1 e = Some d"
    by (rule clone_and_replace_preserves(1) [OF e okf r1])
  have okg: "table_or_nil w1 d (sub_object g)"
    by (rule table_or_nil_sub_object
        [OF clone_and_replace_preserves(2) [OF e okf r1 author]
            clone_and_replace_preserves(2) [OF e okf r1 footer]])
  from clone_and_replace_effect [OF e1 okg, of "sub_key g" "VStr y"] r2 obtain B where
    B_new: "length (heap w1) \<le> B"
    and dB: "index w2 d (sub_object g) = Some (VRef B)"
    and B_key: "index w2 B (sub_key g) = Some (VStr y)"
    and B_old: "\<forall>j. j \<noteq> sub_key g \<longrightarrow> index w2 B j = sub_index w1 d (sub_object g) j"
    and frame: "\<forall>a. a < length (heap w1) \<longrightarrow> a \<noteq> d \<longrightarrow> cell_at w2 a = cell_at w1 a"
    and keys: "\<forall>j. j \<noteq> sub_object g \<longrightarrow> index w2 d j = index w1 d j"
    by auto
  from e obtain td where "table_at w d = Some td"
    using EmbedData_table by fastforce
  then have "d < length (heap w)"
    by (rule table_at_length)
  with A_new have Ad: "A \<noteq> d"
    by simp
  have "table_at w1 A \<noteq> None"
    using A_key by (rule index_Some_table)
  then have Al: "A < length (heap w1)"
    using table_at_length by fastforce
  with frame Ad have cA: "cell_at w2 A = cell_at w1 A"
    by simp
  then have tA: "table_at w2 A = table_at w1 A"
    by (simp add: table_at_def)
  then have iA: "\<And>j. index w2 A j = index w1 A j"
    by (simp add: index_def)
  have AB: "A \<noteq> B"
    using Al B_new by simp
  have other: "sub_index w2 d (sub_object f) (sub_key f) = Some (VStr x)"
    if ne: "(sub_object g, sub_key g) \<noteq> (sub_object f, sub_key f)"
  proof (cases "sub_object g = sub_object f")
    case True
    with ne have "sub_key f \<noteq> sub_key g"
      by auto
    with B_old have "index w2 B (sub_key f) = sub_index w1 d (sub_object g) (sub_key f)"
      by simp
    also have "\<dots> = index w1 A (sub_key f)"
      using A True by (simp add: sub_index_def)
    finally show ?thesis
      using dB True A_key by (simp add: sub_index_def)
  next
    case False
    with keys A have "index w2 d (sub_object f) = Some (VRef A)"
      by simp
    then show ?thesis
      using iA A_key by (simp add: sub_index_def)
  qed
  show ?thesis
    using tA iA A_key A_old dB AB B_key other by (simp add: sub_index_def)
qed

lemmas author_run =
  after_author_name_def after_author_url_def fresh_embed SetAuthorUrl_def SetAuthorName_def
  clone_and_replace_def EmbedData_def

theorem sub_objects_copy_on_write_witness:
  "EmbedData fresh_embed 1 = Some 0
   \<and> table_or_nil fresh_embed 0 ''author''
   \<and> table_or_nil fresh_embed 0 ''footer''
   \<and> call_sub_setter AuthorUrl fresh_embed 1 ''https://a.example'' = Inr after_author_url
   \<and> index after_author_url 0 (sub_object AuthorUrl) = Some (VRef 3)
   \<and> call_sub_setter AuthorName after_author_url 1 ''Ann'' = Inr after_author_name
   \<and> table_at after_author_name 3 = table_at after_author_url 3
   \<and> index after_author_name 3 ''url'' = Some (VStr ''https://a.example'')
   \<and> index after_author_name 3 ''name'' = None
   \<and> index after_author_name 0 ''author'' \<noteq> Some (VRef 3)
   \<and> sub_index after_author_name 0 ''author'' ''name'' = Some (VStr ''Ann'')
   \<and> sub_index after_author_name 0 ''author'' ''url'' = Some (VStr ''https://a.example'')"
proof -
  have e: "EmbedData fresh_embed 1 = Some 0"
    by (simp add: fresh_embed EmbedData_def heap_eval)
  have a: "table_or_nil fresh_embed 0 ''author''"
    by (simp add: fresh_embed heap_eval)
  have f: "table_or_nil fresh_embed 0 ''footer''"
    by (simp add: fresh_embed heap_eval)
  have s1: "call_sub_setter AuthorUrl fresh_embed 1 ''https://a.example'' = Inr after_author_url"
    by (simp add: author_run heap_eval string_eval)
  have A: "index after_author_url 0 (sub_object AuthorUrl) = Some (VRef 3)"
    by (simp add: author_run heap_eval string_eval)
  have s2: "call_sub_setter AuthorName after_author_url 1 ''Ann'' = Inr after_author_name"
    by (simp add: author_run heap_eval string_eval)
  have n: "sub_index fresh_embed 0 ''author'' ''name'' = None"
    by (simp add: fresh_embed heap_eval)
  from sub_objects_copy_on_write [OF e a f s1 A s2] n e a f s1 A s2
  show ?thesis
    by simp
qed

section \<open>Appending to an array of a document\<close>

lemma foldl_push: "foldl push t vs = t\<lparr>arr := arr t @ vs\<rparr>"
  by (induction vs arbitrary: t) (simp_all add: push_def)

lemma Append_table:
  "table_at w a = Some t \<Longrightarrow>
     Append w (VRef a) vals
       = Inr (length (heap w),
              put (snd (alloc w (Table t))) (length (heap w)) (Table (t\<lparr>arr := arr t @ vals\<rparr>)))"
  by (simp add: Append_def table_clone_def alloc_def table_at_def cell_at_def foldl_push)

lemma Append_store_effect:
  assumes ta: "table_at w2 a = Some t" and td: "table_at w2 d = Some td"
  shows "\<exists>w'. (case Append w2 (VRef a) vals of
                 Inl e \<Rightarrow> Inl e
               | Inr (result, w3) \<Rightarrow> Inr (set_field w3 d name (VRef result))) = Inr w'
       \<and> index w' d name = Some (VRef (length (heap w2)))
       \<and> table_at w' (length (heap w2)) = Some (t\<lparr>arr := arr t @ vals\<rparr>)
       \<and> (\<forall>b. b < length (heap w2) \<longrightarrow> b \<noteq> d \<longrightarrow> cell_at w' b = cell_at w2 b)
       \<and> (\<forall>j. j \<noteq> name \<longrightarrow> index w' d j = hash td j)
       \<and> warnings w' = warnings w2"
proof -
  let ?r = "length (heap w2)"
  let ?w3 = "put (snd (alloc w2 (Table t))) ?r (Table (t\<lparr>arr := arr t @ vals\<rparr>))"
  define w' where "w' = set_field ?w3 d name (VRef ?r)"
  have dl: "d < ?r"
    using td by (rule table_at_length)
  have d3: "table_at ?w3 d = Some td"
    using dl td by (simp add: table_at_put table_at_alloc heap_alloc)
  have r3: "table_at ?w3 ?r = Some (t\<lparr>arr := arr t @ vals\<rparr>)"
    by (simp add: table_at_put heap_alloc)
  have c3: "\<forall>b. b < ?r \<longrightarrow> cell_at ?w3 b = cell_at w2 b"
    by (simp add: cell_at_put cell_at_alloc)
  have "(case Append w2 (VRef a) vals of
           Inl e \<Rightarrow> Inl e
         | Inr (result, w3) \<Rightarrow> Inr (set_field w3 d name (VRef result))) = Inr w'"
    unfolding w'_def by (simp add: Append_table [OF ta])
  moreover have "index w' d name = Some (VRef ?r)"
    unfolding w'_def by (simp add: index_def table_at_set_field [OF d3])
  moreover have "table_at w' ?r = Some (t\<lparr>arr := arr t @ vals\<rparr>)"
    unfolding w'_def using dl r3 by (simp add: table_at_set_field [OF d3])
  moreover have "\<forall>b. b < ?r \<longrightarrow> b \<noteq> d \<longrightarrow> cell_at w' b = cell_at w2 b"
    unfolding w'_def using c3 by (simp add: cell_at_set_field)
  moreover have "\<forall>j. j \<noteq> name \<longrightarrow> index w' d j = hash td j"
    unfolding w'_def by (simp add: index_def table_at_set_field [OF d3])
  moreover have "warnings w' = warnings w2"
    unfolding w'_def by (simp add: warnings_set_field warnings_put warnings_alloc)
  ultimately show ?thesis
    by blast
qed

lemma append_to_effect:
  assumes td: "table_at w d = Some td" and ok: "table_or_nil w d name"
  shows "\<exists>w' r. append_to w d name vals = Inr w'
       \<and> length (heap w) \<le> r
       \<and> index w' d name = Some (VRef r)
       \<and> elements w' d name
           = Some ((case elements w d name of None \<Rightarrow> [] | Some vs \<Rightarrow> vs) @ vals)
       \<and> (\<forall>a. a < length (heap w) \<longrightarrow> a \<noteq> d \<longrightarrow> cell_at w' a = cell_at w a)
       \<and> (\<forall>j. j \<noteq> name \<longrightarrow> index w' d j = index w d j)
       \<and> warnings w' = warnings w"
proof -
  have dl: "d < length (heap w)"
    using td by (rule table_at_length)
  have keys: "\<forall>j. index w d j = hash td j"
    using td by (simp add: index_def)
  from ok show ?thesis
  proof (cases rule: table_or_nil_cases)
    case 1
    let ?w1 = "snd (alloc w (Table empty_table))"
    have ta: "table_at ?w1 (length (heap w)) = Some empty_table"
      by (simp add: table_at_alloc)
    have t1d: "table_at ?w1 d = Some td"
      using dl td by (simp add: table_at_alloc)
    have eq: "append_to w d name vals
        = (case Append ?w1 (VRef (length (heap w))) vals of
             Inl e \<Rightarrow> Inl e
           | Inr (result, w3) \<Rightarrow> Inr (set_field w3 d name (VRef result)))"
      using 1 by (simp add: append_to_def or_new_table_def alloc_def)
    from Append_store_effect [OF ta t1d, where vals = "vals" and name = name] obtain w' where
      r: "append_to w d name vals = Inr w'"
      and dn: "index w' d name = Some (VRef (length (heap ?w1)))"
      and tr: "table_at w' (length (heap ?w1)) = Some (empty_table\<lparr>arr := arr empty_table @ vals\<rparr>)"
      and frame: "\<forall>b. b < length (heap ?w1) \<longrightarrow> b \<noteq> d \<longrightarrow> cell_at w' b = cell_at ?w1 b"
      and ks: "\<forall>j. j \<noteq> name \<longrightarrow> index w' d j = hash td j"
      and wr: "warnings w' = warnings ?w1"
      unfolding eq by blast
    have "elements w d name = None"
      using 1 by (simp add: elements_def)
    then have "elements w' d name
        = Some ((case elements w d name of None \<Rightarrow> [] | Some vs \<Rightarrow> vs) @ vals)"
      using elements_index [OF dn tr] by (simp add: empty_table_def)
    moreover have "\<forall>a. a < length (heap w) \<longrightarrow> a \<noteq> d \<longrightarrow> cell_at w' a = cell_at w a"
      using frame by (simp add: heap_alloc cell_at_alloc)
    moreover have "length (heap w) \<le> length (heap ?w1)"
      by (simp add: heap_alloc)
    ultimately show ?thesis
      using r dn ks keys wr by (auto simp: warnings_alloc)
  next
    case (2 a t)
    have eq: "append_to w d name vals
        = (case Append w (VRef a) vals of
             Inl e \<Rightarrow> Inl e
           | Inr (result, w3) \<Rightarrow> Inr (set_field w3 d name (VRef result)))"
      using 2 by (simp add: append_to_def or_new_table_def)
    from Append_store_effect [OF 2(2) td, where vals = "vals" and name = name] obtain w' where
      r: "append_to w d name vals = Inr w'"
      and dn: "index w' d name = Some (VRef (length (heap w)))"
      and tr: "table_at w' (length (heap w)) = Some (t\<lparr>arr := arr t @ vals\<rparr>)"
      and frame: "\<forall>b. b < length (heap w) \<longrightarrow> b \<noteq> d \<longrightarrow> cell_at w' b = cell_at w b"
      and ks: "\<forall>j. j \<noteq> name \<longrightarrow> index w' d j = hash td j"
      and wr: "warnings w' = warnings w"
      unfolding eq by blast
    have "elements w d name = Some (arr t)"
      using 2 by (simp add: elements_def)
    then have "elements w' d name
        = Some ((case elements w d name of None \<Rightarrow> [] | Some vs \<Rightarrow> vs) @ vals)"
      using elements_index [OF dn tr] by simp
    then show ?thesis
      using r dn frame ks keys wr by auto
  qed
qed

lemma AddField_effect:
  assumes name: "GetUtf8Length name = Inr n" "n \<le> 256"
    and val: "GetUtf8Length value = Inr m" "m \<le> 1024"
    and e: "EmbedData w e = Some d" and ok: "table_or_nil w d ''fields''"
  shows "\<exists>w' f. AddField w e name value inline = Inr w'
       \<and> length (heap w) \<le> f
       \<and> elements w' d ''fields''
           = Some ((case elements w d ''fields'' of None \<Rightarrow> [] | Some vs \<Rightarrow> vs) @ [VRef f])
       \<and> table_at w' f = Some (field_table inline name value)
       \<and> (\<forall>a. a < length (heap w) \<longrightarrow> a \<noteq> d \<longrightarrow> cell_at w' a = cell_at w a)
       \<and> (\<forall>j. j \<noteq> ''fields'' \<longrightarrow> index w' d j = index w d j)"
proof -
  from e obtain td where td: "table_at w d = Some td"
    using EmbedData_table by fastforce
  have dl: "d < length (heap w)"
    using td by (rule table_at_length)
  have keys: "\<forall>j. index w d j = hash td j"
    using td by (simp add: index_def)
  let ?ft = "field_table inline name value"
  from ok show ?thesis
  proof (cases rule: table_or_nil_cases)
    case 1
    let ?L = "length (heap w)"
    let ?w2 = "snd (alloc (snd (alloc w (Table empty_table))) (Table ?ft))"
    have ta: "table_at ?w2 ?L = Some empty_table"
      by (simp add: table_at_alloc heap_alloc)
    have t2d: "table_at ?w2 d = Some td"
      using dl td by (simp add: table_at_alloc heap_alloc)
    have L2: "length (heap ?w2) = Suc (Suc ?L)"
      by (simp add: heap_alloc)
    have eq: "AddField w e name value inline
        = (case Append ?w2 (VRef ?L) [VRef (Suc ?L)] of
             Inl e \<Rightarrow> Inl e
           | Inr (result, w3) \<Rightarrow> Inr (set_field w3 d ''fields'' (VRef result)))"
      using 1 name val e by (simp add: AddField_def or_new_table_def alloc_def)
    from Append_store_effect [OF ta t2d, where vals = "[VRef (Suc ?L)]" and name = "''fields''"]
    obtain w' where
      r: "AddField w e name value inline = Inr w'"
      and dn: "index w' d ''fields'' = Some (VRef (Suc (Suc ?L)))"
      and tr: "table_at w' (Suc (Suc ?L))
                 = Some (empty_table\<lparr>arr := arr empty_table @ [VRef (Suc ?L)]\<rparr>)"
      and frame: "\<forall>b. b < Suc (Suc ?L) \<longrightarrow> b \<noteq> d \<longrightarrow> cell_at w' b = cell_at ?w2 b"
      and ks: "\<forall>j. j \<noteq> ''fields'' \<longrightarrow> index w' d j = hash td j"
      unfolding eq L2 by blast
    have "elements w d ''fields'' = None"
      using 1 by (simp add: elements_def)
    then have el: "elements w' d ''fields''
        = Some ((case elements w d ''fields'' of None \<Rightarrow> [] | Some vs \<Rightarrow> vs) @ [VRef (Suc ?L)])"
      using elements_index [OF dn tr] by (simp add: empty_table_def)
    have "cell_at w' (Suc ?L) = Some (Table ?ft)"
      using frame dl by (simp add: cell_at_alloc heap_alloc)
    then have tf: "table_at w' (Suc ?L) = Some ?ft"
      by (simp add: table_at_def)
    have fr: "\<forall>a. a < ?L \<longrightarrow> a \<noteq> d \<longrightarrow> cell_at w' a = cell_at w a"
      using frame by (simp add: heap_alloc cell_at_alloc)
    have le: "?L \<le> Suc ?L"
      by simp
    have ks': "\<forall>j. j \<noteq> ''fields'' \<longrightarrow> index w' d j = index w d j"
      using ks keys by simp
    from r le el tf fr ks' show ?thesis
      by (intro exI [of _ w'] exI [of _ "Suc ?L"] conjI)
  next
    case (2 a t)
    let ?L = "length (heap w)"
    let ?w2 = "snd (alloc w (Table ?ft))"
    have al: "a < ?L"
      using 2(2) by (rule table_at_length)
    have ta: "table_at ?w2 a = Some t"
      using al 2(2) by (simp add: table_at_alloc)
    have t2d: "table_at ?w2 d = Some td"
      using dl td by (simp add: table_at_alloc)
    have L2: "length (heap ?w2) = Suc ?L"
      by (simp add: heap_alloc)
    have eq: "AddField w e name value inline
        = (case Append ?w2 (VRef a) [VRef ?L] of
             Inl e \<Rightarrow> Inl e
           | Inr (result, w3) \<Rightarrow> Inr (set_field w3 d ''fields'' (VRef result)))"
      using 2 name val e by (simp add: AddField_def or_new_table_def alloc_def)
    from Append_store_effect [OF ta t2d, where vals = "[VRef ?L]" and name = "''fields''"]
    obtain w' where
      r: "AddField w e name value inline = Inr w'"
      and dn: "index w' d ''fields'' = Some (VRef (Suc ?L))"
      and tr: "table_at w' (Suc ?L) = Some (t\<lparr>arr := arr t @ [VRef ?L]\<rparr>)"
      and frame: "\<forall>b. b < Suc ?L \<longrightarrow> b \<noteq> d \<longrightarrow> cell_at w' b = cell_at ?w2 b"
      and ks: "\<forall>j. j \<noteq> ''fields'' \<longrightarrow> index w' d j = hash td j"
      unfolding eq L2 by blast
    have "elements w d ''fields'' = Some (arr t)"
      using 2 by (simp add: elements_def)
    then have el: "elements w' d ''fields''
        = Some ((case elements w d ''fields'' of None \<Rightarrow> [] | Some vs \<Rightarrow> vs) @ [VRef ?L])"
      using elements_index [OF dn tr] by simp
    have "cell_at w' ?L = Some (Table ?ft)"
      using frame dl by (simp add: cell_at_alloc)
    then have tf: "table_at w' ?L = Some ?ft"
      by (simp add: table_at_def)
    have fr: "\<forall>a. a < ?L \<longrightarrow> a \<noteq> d \<longrightarrow> cell_at w' a = cell_at w a"
      using frame by (simp add: cell_at_alloc)
    have le: "?L \<le> ?L"
      by simp
    have ks': "\<forall>j. j \<noteq> ''fields'' \<longrightarrow> index w' d j = index w d j"
      using ks keys by simp
    from r le el tf fr ks' show ?thesis
      by (intro exI [of _ w'] exI [of _ ?L] conjI)
  qed
qed


section \<open>The length-bounded setters\<close>













text \<open>\<open>SetField\<close> is \<open>AddField\<close> under a second name.\<close>

lemma SetField_AddField: "SetField w self name value inline = AddField w self name value inline"
  by (simp add: SetField_def AddField_def)

text \<open>
  Claim C6. \<open>SetDescription\<close> rejects a description of 4097 code points, one more than
  its bound 4096, and the message of the error names the bound 2048.
\<close>

theorem SetDescription_cites_2048:
  "SetDescription w self (replicate 4097 CHR ''x'')
     = Inl (LuaError '''description' must be less than 2048 characters'', w)"
  by (simp add: SetDescription_def GetUtf8Length_replicate_x)

section \<open>The flags of a message\<close>

lemma or_and_absorb: "(v OR F) AND F = (F :: 32 word)"
  by (simp add: bit_eq_iff bit_simps)

lemma and_or_absorb: "v AND F = F \<Longrightarrow> v OR F = (v :: 32 word)"
  by (auto simp: bit_eq_iff bit_simps)

lemma single_bit_and:
  assumes "(v :: 32 word) AND 2 ^ n \<noteq> 0"
  shows "v AND 2 ^ n = 2 ^ n"
proof -
  from assms have "bit v n"
    by (simp add: and_exp_eq_0_iff_not_bit)
  then show ?thesis
    by (intro bit_word_eqI) (auto simp: bit_simps)
qed

lemma flag_single_bit:
  assumes "F \<in> {SUPPRESS_EMBEDS, SUPPRESS_NOTIFICATIONS}" and "(v :: 32 word) AND F \<noteq> 0"
  shows "v AND F = F"
  using assms single_bit_and [of v 2] single_bit_and [of v 12]
  by (auto simp: SUPPRESS_EMBEDS_def SUPPRESS_NOTIFICATIONS_def)

lemma flag_nonzero: "F \<in> {SUPPRESS_EMBEDS, SUPPRESS_NOTIFICATIONS} \<Longrightarrow> F \<noteq> 0"
  by (auto simp: SUPPRESS_EMBEDS_def SUPPRESS_NOTIFICATIONS_def)

text \<open>
  Claim C8. Let \<open>F\<close> be one of the two message flags. When \<open>F\<close> is already in the
  flag set, \<open>AddFlag\<close> returns without an error, and the world it returns differs from
  the one before only by the warning. \<open>AddFlag\<close> called twice with \<open>F\<close> returns both
  times; after the first call the flag set is the old one with \<open>F\<close> in it, and the
  second call leaves the flag set and the whole heap as they are and adds the warning.
\<close>

theorem AddFlag_twice:
  assumes c: "ContentBuilder_this w c = Some (m, flags)"
    and F: "F \<in> {SUPPRESS_EMBEDS, SUPPRESS_NOTIFICATIONS}"
  shows "(Value flags AND F = F \<longrightarrow>
            AddFlag w c F = Inr (w\<lparr>warnings := warnings w @ [''Flag already set.'']\<rparr>))
       \<and> (\<exists>w1 w2 flags1.
             AddFlag w c F = Inr w1 \<and> AddFlag w1 c F = Inr w2
           \<and> ContentBuilder_this w1 c = Some (m, flags1)
           \<and> ContentBuilder_this w2 c = Some (m, flags1)
           \<and> Value flags1 = Value flags OR F
           \<and> heap w2 = heap w1
           \<and> warnings w2 = warnings w1 @ [''Flag already set.''])"
proof (intro conjI impI)
  assume "Value flags AND F = F"
  with flag_nonzero [OF F] have "Intersects flags F"
    by (simp add: Intersects_def)
  with c show "AddFlag w c F = Inr (w\<lparr>warnings := warnings w @ [''Flag already set.'']\<rparr>)"
    by (simp add: AddFlag_def warn_def)
next
  have again: "\<exists>w2. AddFlag w1 c F = Inr w2 \<and> ContentBuilder_this w2 c = Some (m, flags1)
        \<and> heap w2 = heap w1 \<and> warnings w2 = warnings w1 @ [''Flag already set.'']"
    if c1: "ContentBuilder_this w1 c = Some (m, flags1)" and set: "Value flags1 AND F = F"
    for w1 flags1
  proof -
    from set flag_nonzero [OF F] have "Intersects flags1 F"
      by (simp add: Intersects_def)
    with c1 have "AddFlag w1 c F = Inr (warn w1 ''Flag already set.'')"
      by (simp add: AddFlag_def)
    with c1 show ?thesis
      by (simp add: ContentBuilder_this_warn) (simp add: warn_def)
  qed
  show "\<exists>w1 w2 flags1.
             AddFlag w c F = Inr w1 \<and> AddFlag w1 c F = Inr w2
           \<and> ContentBuilder_this w1 c = Some (m, flags1)
           \<and> ContentBuilder_this w2 c = Some (m, flags1)
           \<and> Value flags1 = Value flags OR F
           \<and> heap w2 = heap w1
           \<and> warnings w2 = warnings w1 @ [''Flag already set.'']"
  proof (cases "Intersects flags F")
    case True
    then have set: "Value flags AND F = F"
      using flag_single_bit [OF F] by (simp add: Intersects_def)
    from True c have r1: "AddFlag w c F = Inr (warn w ''Flag already set.'')"
      by (simp add: AddFlag_def)
    have c1: "ContentBuilder_this (warn w ''Flag already set.'') c = Some (m, flags)"
      using c by (simp add: ContentBuilder_this_warn)
    from again [OF c1 set] r1 c1 and_or_absorb [OF set] show ?thesis
      by auto
  next
    case False
    with c have r1: "AddFlag w c F = Inr (put w c (ContentBuilderInst m (On flags F)))"
      by (simp add: AddFlag_def)
    have c1: "ContentBuilder_this (put w c (ContentBuilderInst m (On flags F))) c
                = Some (m, On flags F)"
      by (rule ContentBuilder_this_put [OF c])
    have set: "Value (On flags F) AND F = F"
      by (simp add: On_def or_and_absorb)
    have "Value (On flags F) = Value flags OR F"
      by (simp add: On_def)
    with again [OF c1 set] r1 c1 show ?thesis
      by auto
  qed
qed

theorem AddFlag_twice_witness:
  "ContentBuilder_this flagged 4 = Some (3, \<lparr>Value = 4\<rparr>)
   \<and> SUPPRESS_EMBEDS \<in> {SUPPRESS_EMBEDS, SUPPRESS_NOTIFICATIONS}
   \<and> Value \<lparr>Value = 4\<rparr> AND SUPPRESS_EMBEDS = SUPPRESS_EMBEDS
   \<and> AddFlag flagged 4 SUPPRESS_EMBEDS = Inr (flagged\<lparr>warnings := [''Flag already set.'']\<rparr>)"
proof -
  have c: "ContentBuilder_this flagged 4 = Some (3, \<lparr>Value = 4\<rparr>)"
    by (simp add: flagged ContentBuilder_this_def heap_eval)
  have F: "SUPPRESS_EMBEDS \<in> {SUPPRESS_EMBEDS, SUPPRESS_NOTIFICATIONS}"
    by simp
  have set: "Value \<lparr>Value = 4\<rparr> AND SUPPRESS_EMBEDS = SUPPRESS_EMBEDS"
    by (simp add: SUPPRESS_EMBEDS_def)
  have "warnings flagged = []"
    by (simp add: flagged)
  with AddFlag_twice [OF c F] c F set show ?thesis
    by simp
qed

section \<open>Serialising a message\<close>

text \<open>
  Claim C10. Where \<open>c\<close> is a \<open>ContentBuilder\<close> with the bit field \<open>flags\<close>,
  \<open>Serialize\<close> returns a table whose key \<open>flags\<close> holds the integer value of the bit
  field, and \<open>SerializeAsJson\<close> and \<open>ToJson\<close> encode that same table. For a builder
  just made the key holds 0.
\<close>

theorem Serialize_has_flags:
  assumes "ContentBuilder_this w c = Some (m, flags)"
  shows "(\<exists>t. Serialize w c = Inr t
            \<and> hash t ''flags'' = Some (VNum (uint (Value flags)))
            \<and> SerializeAsJson JSONEncode w c = Inr (JSONEncode w t)
            \<and> ToJson JSONEncode w c = Inr (JSONEncode w t))
       \<and> (\<exists>t. Serialize (snd (new_ContentBuilder w0)) (fst (new_ContentBuilder w0)) = Inr t
            \<and> hash t ''flags'' = Some (VNum 0))"
proof
  from assms obtain t where "table_at w m = Some t"
    using ContentBuilder_this_table by fastforce
  with assms show "\<exists>t. Serialize w c = Inr t
            \<and> hash t ''flags'' = Some (VNum (uint (Value flags)))
            \<and> SerializeAsJson JSONEncode w c = Inr (JSONEncode w t)
            \<and> ToJson JSONEncode w c = Inr (JSONEncode w t)"
    by (simp add: Serialize_def SerializeAsJson_def ToJson_def)
next
  have "ContentBuilder_this (snd (new_ContentBuilder w0)) (fst (new_ContentBuilder w0))
          = Some (Suc (length (heap w0)), new_BitField)"
    by (simp add: new_ContentBuilder_def alloc_def ContentBuilder_this_def cell_at_def
        table_at_def nth_append)
  moreover have "table_at (snd (new_ContentBuilder w0)) (Suc (length (heap w0)))
          = Some \<lparr>hash = [''attachments'' \<mapsto> VRef (length (heap w0))], arr = []\<rparr>"
    by (simp add: new_ContentBuilder_def alloc_def cell_at_def table_at_def nth_append)
  ultimately show "\<exists>t. Serialize (snd (new_ContentBuilder w0)) (fst (new_ContentBuilder w0)) = Inr t
            \<and> hash t ''flags'' = Some (VNum 0)"
    by (simp add: Serialize_def new_BitField_def)
qed

theorem Serialize_has_flags_witness:
  "ContentBuilder_this flagged 4 = Some (3, \<lparr>Value = 4\<rparr>)
   \<and> (\<exists>t. Serialize flagged 4 = Inr t
         \<and> hash t ''flags'' = Some (VNum 4)
         \<and> hash t ''attachments'' = Some (VRef 2))"
proof -
  have c: "ContentBuilder_this flagged 4 = Some (3, \<lparr>Value = 4\<rparr>)"
    by (simp add: flagged ContentBuilder_this_def heap_eval)
  have "\<exists>t. Serialize flagged 4 = Inr t \<and> hash t ''attachments'' = Some (VRef 2)"
    by (simp add: flagged Serialize_def ContentBuilder_this_def heap_eval)
  with Serialize_has_flags [OF c, of "\<lambda>w t. []"] c show ?thesis
    by auto
qed

section \<open>Embeds of a message\<close>

lemma AddEmbed_effect:
  assumes c: "ContentBuilder_this w c = Some (m, flags)"
    and ok: "table_or_nil w m ''embeds''"
    and e: "cell_at w e = Some (EmbedBuilderInst d)"
  shows "\<exists>w' r. AddEmbed w c (VRef e) = Inr w'
       \<and> length (heap w) \<le> r
       \<and> index w' m ''embeds'' = Some (VRef r)
       \<and> elements w' m ''embeds''
           = Some ((case elements w m ''embeds'' of None \<Rightarrow> [] | Some vs \<Rightarrow> vs) @ [VRef d])
       \<and> (\<forall>a. a < length (heap w) \<longrightarrow> a \<noteq> m \<longrightarrow> cell_at w' a = cell_at w a)
       \<and> (\<forall>j. j \<noteq> ''embeds'' \<longrightarrow> index w' m j = index w m j)
       \<and> warnings w' = warnings w"
proof -
  from c obtain tm where tm: "table_at w m = Some tm"
    using ContentBuilder_this_table by fastforce
  have "AddEmbed w c (VRef e) = append_to w m ''embeds'' [VRef d]"
    using c e by (simp add: AddEmbed_def EmbedBuilder_Is_def)
  with append_to_effect [OF tm ok, of "[VRef d]"] show ?thesis
    by simp
qed

text \<open>
  Claim C9. \<open>AddEmbed\<close> given a value that is not an \<open>EmbedBuilder\<close> raises, and the
  world is the one before the call; given an \<open>EmbedBuilder\<close> it returns, and the
  \<open>embeds\<close> of the message are the former ones followed by the document of that builder.
\<close>

theorem AddEmbed_capability_check:
  assumes c: "ContentBuilder_this w c = Some (m, flags)"
    and ok: "table_or_nil w m ''embeds''"
  shows "(\<not> EmbedBuilder_Is w v \<longrightarrow>
            AddEmbed w c v = Inl (LuaError ''Embed must be an EmbedBuilder'', w))
       \<and> (EmbedBuilder_Is w v \<longrightarrow>
            (\<exists>w' e d. v = VRef e \<and> cell_at w e = Some (EmbedBuilderInst d)
               \<and> AddEmbed w c v = Inr w'
               \<and> elements w' m ''embeds''
                   = Some ((case elements w m ''embeds'' of None \<Rightarrow> [] | Some vs \<Rightarrow> vs)
                           @ [VRef d])))"
proof (intro conjI impI)
  assume "\<not> EmbedBuilder_Is w v"
  then show "AddEmbed w c v = Inl (LuaError ''Embed must be an EmbedBuilder'', w)"
    by (simp add: AddEmbed_def)
next
  assume "EmbedBuilder_Is w v"
  then obtain e d where v: "v = VRef e" and e: "cell_at w e = Some (EmbedBuilderInst d)"
    unfolding EmbedBuilder_Is_cases by blast
  from AddEmbed_effect [OF c ok e] obtain w' where
    "AddEmbed w c (VRef e) = Inr w'"
    "elements w' m ''embeds''
       = Some ((case elements w m ''embeds'' of None \<Rightarrow> [] | Some vs \<Rightarrow> vs) @ [VRef d])"
    by blast
  with v e show "\<exists>w' e d. v = VRef e \<and> cell_at w e = Some (EmbedBuilderInst d)
               \<and> AddEmbed w c v = Inr w'
               \<and> elements w' m ''embeds''
                   = Some ((case elements w m ''embeds'' of None \<Rightarrow> [] | Some vs \<Rightarrow> vs)
                           @ [VRef d])"
    by blast
qed

theorem AddEmbed_capability_check_witness:
  "ContentBuilder_this two_builders 4 = Some (3, new_BitField)
   \<and> table_or_nil two_builders 3 ''embeds''
   \<and> \<not> EmbedBuilder_Is two_builders (VStr ''embed'')
   \<and> AddEmbed two_builders 4 (VStr ''embed'')
       = Inl (LuaError ''Embed must be an EmbedBuilder'', two_builders)
   \<and> \<not> EmbedBuilder_Is two_builders (VRef 0)
   \<and> AddEmbed two_builders 4 (VRef 0)
       = Inl (LuaError ''Embed must be an EmbedBuilder'', two_builders)
   \<and> EmbedBuilder_Is two_builders (VRef 1)
   \<and> (\<exists>w'. AddEmbed two_builders 4 (VRef 1) = Inr w'
         \<and> elements w' 3 ''embeds'' = Some [VRef 0])"
proof -
  have c: "ContentBuilder_this two_builders 4 = Some (3, new_BitField)"
    by (simp add: two_builders ContentBuilder_this_def heap_eval)
  have ok: "table_or_nil two_builders 3 ''embeds''"
    by (simp add: two_builders heap_eval)
  have no: "\<not> EmbedBuilder_Is two_builders (VStr ''embed'')"
    "\<not> EmbedBuilder_Is two_builders (VRef 0)"
    and yes: "EmbedBuilder_Is two_builders (VRef 1)"
    by (simp_all add: two_builders EmbedBuilder_Is_def heap_eval)
  have el: "elements two_builders 3 ''embeds'' = None"
    and e: "cell_at two_builders 1 = Some (EmbedBuilderInst 0)"
    by (simp_all add: two_builders heap_eval)
  from AddEmbed_capability_check [OF c ok, of "VStr ''embed''"]
    AddEmbed_capability_check [OF c ok, of "VRef 0"]
    AddEmbed_capability_check [OF c ok, of "VRef 1"]
    c ok no yes el e
  show ?thesis
    by auto
qed

section \<open>An added embed is shared\<close>

text \<open>
  Claim C1 says that the element stored by \<open>AddEmbed\<close> is a snapshot. In the run below
  the element stored in the message is the table at address 0, the document of the embed
  builder: it has no title after \<open>AddEmbed\<close>, and the title \<open>x\<close> after the later
  \<open>SetTitle\<close> on the embed builder.
\<close>

theorem AddEmbed_counterexample:
  "AddEmbed two_builders 4 (VRef 1) = Inr after_add_embed
   \<and> last_of after_add_embed 3 ''embeds'' = Some 0
   \<and> index after_add_embed 0 ''title'' = None
   \<and> SetTitle after_add_embed 1 ''x'' = Inr after_set_title
   \<and> last_of after_set_title 3 ''embeds'' = Some 0
   \<and> index after_set_title 0 ''title'' = Some (VStr ''x'')
   \<and> table_at after_set_title 0 \<noteq> table_at after_add_embed 0"
proof -
  have a: "AddEmbed two_builders 4 (VRef 1) = Inr after_add_embed"
    by (simp add: after_add_embed_def two_builders AddEmbed_def EmbedBuilder_Is_def
        ContentBuilder_this_def heap_eval)
  have b: "last_of after_add_embed 3 ''embeds'' = Some 0"
    and c: "index after_add_embed 0 ''title'' = None"
    by (simp_all add: after_add_embed_def two_builders AddEmbed_def EmbedBuilder_Is_def
        ContentBuilder_this_def heap_eval)
  have d: "SetTitle after_add_embed 1 ''x'' = Inr after_set_title"
    by (simp add: after_set_title_def after_add_embed_def two_builders AddEmbed_def
        EmbedBuilder_Is_def ContentBuilder_this_def SetTitle_def EmbedData_def heap_eval
        string_eval)
  have e: "last_of after_set_title 3 ''embeds'' = Some 0"
    and f: "index after_set_title 0 ''title'' = Some (VStr ''x'')"
    by (simp_all add: after_set_title_def after_add_embed_def two_builders AddEmbed_def
        EmbedBuilder_Is_def ContentBuilder_this_def SetTitle_def EmbedData_def heap_eval
        string_eval)
  from c f have "table_at after_set_title 0 \<noteq> table_at after_add_embed 0"
    by (auto simp: index_def split: option.splits)
  with a b c d e f show ?thesis
    by simp
qed

text \<open>
  Claim C1, as the code has it. \<open>AddEmbed\<close> appends the document of the embed builder
  itself, the same table and not a copy. A later \<open>SetTitle\<close> or \<open>AddField\<close> on the
  embed builder leaves the elements of \<open>embeds\<close> the same references, and what it writes
  is read through the element stored in the message: the title is the title of that
  table, the new field is the last of its \<open>fields\<close>.
\<close>

theorem AddEmbed_shares_document:
  assumes c: "ContentBuilder_this w c = Some (m, flags)"
    and ok: "table_or_nil w m ''embeds''"
    and e: "EmbedData w e = Some d"
    and fields: "table_or_nil w d ''fields''"
    and title: "GetUtf8Length title = Inr n" "n \<le> 256"
    and val: "GetUtf8Length value = Inr k" "k \<le> 1024"
  shows "\<exists>w1 w2 w3 f.
           AddEmbed w c (VRef e) = Inr w1
         \<and> last_of w1 m ''embeds'' = Some d
         \<and> SetTitle w1 e title = Inr w2
         \<and> elements w2 m ''embeds'' = elements w1 m ''embeds''
         \<and> index w2 d ''title'' = Some (VStr title)
         \<and> AddField w1 e title value inline = Inr w3
         \<and> elements w3 m ''embeds'' = elements w1 m ''embeds''
         \<and> last_of w3 d ''fields'' = Some f
         \<and> index w3 f ''name'' = Some (VStr title)"
proof -
  from e have ce: "cell_at w e = Some (EmbedBuilderInst d)"
    by (rule EmbedData_cell)
  then have el: "e < length (heap w)"
    by (simp add: cell_at_def split: if_splits)
  from e obtain td where td: "table_at w d = Some td"
    using EmbedData_table by fastforce
  then have dl: "d < length (heap w)"
    by (rule table_at_length)
  from c obtain tm where tm: "table_at w m = Some tm"
    using ContentBuilder_this_table by fastforce
  from ce tm have em: "e \<noteq> m"
    by (auto simp: table_at_cell)
  from AddEmbed_effect [OF c ok ce] obtain w1 r where
    r1: "AddEmbed w c (VRef e) = Inr w1"
    and rl: "length (heap w) \<le> r"
    and mr: "index w1 m ''embeds'' = Some (VRef r)"
    and els: "elements w1 m ''embeds''
           = Some ((case elements w m ''embeds'' of None \<Rightarrow> [] | Some vs \<Rightarrow> vs) @ [VRef d])"
    and frame: "\<forall>a. a < length (heap w) \<longrightarrow> a \<noteq> m \<longrightarrow> cell_at w1 a = cell_at w a"
    and keys: "\<forall>j. j \<noteq> ''embeds'' \<longrightarrow> index w1 m j = index w m j"
    by blast
  have last1: "last_of w1 m ''embeds'' = Some d"
    using els by (rule last_of_elements)
  have rd: "r \<noteq> d"
    using rl dl by simp
  have m1: "table_at w1 m \<noteq> None"
    using mr by (rule index_Some_table)
  have tables: "table_at w1 a \<noteq> None" if "table_at w a \<noteq> None" for a
  proof (cases "a = m")
    case True
    with m1 show ?thesis by simp
  next
    case False
    moreover from that have "a < length (heap w)"
      using table_at_length by fastforce
    ultimately have "cell_at w1 a = cell_at w a"
      using frame by simp
    then have "table_at w1 a = table_at w a"
      by (rule table_at_same_cell)
    with that show ?thesis by simp
  qed
  have d1: "table_at w1 d \<noteq> None"
    using td by (simp add: tables)
  have "cell_at w1 e = cell_at w e"
    using frame el em by simp
  with ce d1 have e1: "EmbedData w1 e = Some d"
    by (auto simp: EmbedData_def)
  have r1t: "table_at w1 r \<noteq> None"
    using els mr by (rule elements_Some_table)
  then have r1l: "r < length (heap w1)"
    using table_at_length by fastforce
  \<comment> \<open>the title\<close>
  define w2 where "w2 = set_field w1 d ''title'' (VStr title)"
  have r2: "SetTitle w1 e title = Inr w2"
    using title e1 by (simp add: SetTitle_def w2_def)
  have t2: "index w2 d ''title'' = Some (VStr title)"
    unfolding w2_def using d1 by (simp add: index_set_field)
  have "index w2 m ''embeds'' = index w1 m ''embeds''"
    unfolding w2_def using d1 by (simp add: index_set_field)
  moreover have "table_at w2 r = table_at w1 r"
    unfolding w2_def using rd by (intro table_at_same_cell) (simp add: cell_at_set_field)
  ultimately have els2: "elements w2 m ''embeds'' = elements w1 m ''embeds''"
    using mr by (simp add: elements_def)
  \<comment> \<open>a field\<close>
  have same_fields: "index w1 d ''fields'' = index w d ''fields''"
  proof (cases "d = m")
    case True
    with keys show ?thesis by simp
  next
    case False
    with frame dl have "cell_at w1 d = cell_at w d" by simp
    then show ?thesis by (rule index_same_cell)
  qed
  have fields1: "table_or_nil w1 d ''fields''"
    using fields
  proof (cases rule: table_or_nil_cases)
    case 1
    with same_fields show ?thesis
      by (simp add: table_or_nil_def)
  next
    case (2 a t)
    then have "table_at w1 a \<noteq> None"
      by (simp add: tables)
    with 2(1) same_fields show ?thesis
      by (auto simp: table_or_nil_def)
  qed
  from AddField_effect [OF title val e1 fields1, of inline] obtain w3 f where
    r3: "AddField w1 e title value inline = Inr w3"
    and fs: "elements w3 d ''fields''
           = Some ((case elements w1 d ''fields'' of None \<Rightarrow> [] | Some vs \<Rightarrow> vs) @ [VRef f])"
    and tf: "table_at w3 f = Some (field_table inline title value)"
    and frame3: "\<forall>a. a < length (heap w1) \<longrightarrow> a \<noteq> d \<longrightarrow> cell_at w3 a = cell_at w1 a"
    and keys3: "\<forall>j. j \<noteq> ''fields'' \<longrightarrow> index w3 d j = index w1 d j"
    by blast
  have m1l: "m < length (heap w1)"
    using m1 table_at_length by fastforce
  have "index w3 m ''embeds'' = index w1 m ''embeds''"
  proof (cases "m = d")
    case True
    with keys3 show ?thesis by simp
  next
    case False
    with frame3 m1l have "cell_at w3 m = cell_at w1 m" by simp
    then show ?thesis by (rule index_same_cell)
  qed
  moreover have "table_at w3 r = table_at w1 r"
    using frame3 r1l rd by (intro table_at_same_cell) simp
  ultimately have els3: "elements w3 m ''embeds'' = elements w1 m ''embeds''"
    using mr by (simp add: elements_def)
  have last3: "last_of w3 d ''fields'' = Some f"
    using fs by (rule last_of_elements)
  have name3: "index w3 f ''name'' = Some (VStr title)"
    using tf by (simp add: index_def field_table_def)
  from r1 last1 r2 els2 t2 r3 els3 last3 name3 show ?thesis
    by (intro exI [of _ w1] exI [of _ w2] exI [of _ w3] exI [of _ f] conjI)
qed

theorem AddEmbed_shares_document_witness:
  "ContentBuilder_this two_builders 4 = Some (3, new_BitField)
   \<and> table_or_nil two_builders 3 ''embeds''
   \<and> EmbedData two_builders 1 = Some 0
   \<and> table_or_nil two_builders 0 ''fields''
   \<and> GetUtf8Length ''x'' = Inr 1
   \<and> GetUtf8Length ''v'' = Inr 1
   \<and> (\<exists>w1 w2 w3 f.
         AddEmbed two_builders 4 (VRef 1) = Inr w1
       \<and> last_of w1 3 ''embeds'' = Some 0
       \<and> SetTitle w1 1 ''x'' = Inr w2
       \<and> elements w2 3 ''embeds'' = elements w1 3 ''embeds''
       \<and> index w2 0 ''title'' = Some (VStr ''x'')
       \<and> AddField w1 1 ''x'' ''v'' None = Inr w3
       \<and> elements w3 3 ''embeds'' = elements w1 3 ''embeds''
       \<and> last_of w3 0 ''fields'' = Some f
       \<and> index w3 f ''name'' = Some (VStr ''x''))"
proof -
  have c: "ContentBuilder_this two_builders 4 = Some (3, new_BitField)"
    by (simp add: two_builders ContentBuilder_this_def heap_eval)
  have ok: "table_or_nil two_builders 3 ''embeds''"
    and fs: "table_or_nil two_builders 0 ''fields''"
    by (simp_all add: two_builders heap_eval)
  have e: "EmbedData two_builders 1 = Some 0"
    by (simp add: two_builders EmbedData_def heap_eval)
  have x: "GetUtf8Length ''x'' = Inr 1" "(1::nat) \<le> 256"
    and v: "GetUtf8Length ''v'' = Inr 1" "(1::nat) \<le> 1024"
    by (simp_all add: string_eval)
  from AddEmbed_shares_document [OF c ok e fs x v, of None] c ok e fs x(1) v(1)
  show ?thesis
    by simp
qed

section \<open>\<open>AddFields\<close> and \<open>SetFields\<close>\<close>

lemma AddFields_SetFields_agree:
  "IsArrayOfFieldData w args \<Longrightarrow> AddFields w e args = SetFields w e args"
  by (simp add: AddFields_def SetFields_def)

text \<open>
  Claim C2. The two functions agree on arguments that all have the shape of a field. On the
  argument \<open>{ name = "n" }\<close>, which has no \<open>value\<close>, \<open>AddFields\<close> raises and appends
  nothing, and \<open>SetFields\<close> returns and appends it.
\<close>

theorem SetFields_appends_unchecked:
  "\<not> IsFieldData with_bad_field (VRef 2)
   \<and> AddFields with_bad_field 1 [VRef 2]
       = Inl (LuaError '''args' must be an array of IFieldData'', with_bad_field)
   \<and> SetFields with_bad_field 1 [VRef 2] = Inr after_set_fields
   \<and> elements after_set_fields 0 ''fields'' = Some [VRef 2]"
proof -
  have bad: "\<not> IsFieldData with_bad_field (VRef 2)"
    by (simp add: with_bad_field IsFieldData_def heap_eval)
  then have "AddFields with_bad_field 1 [VRef 2]
       = Inl (LuaError '''args' must be an array of IFieldData'', with_bad_field)"
    by (simp add: AddFields_def IsArrayOfFieldData_def)
  moreover have "SetFields with_bad_field 1 [VRef 2] = Inr after_set_fields"
    by (simp add: after_set_fields_def with_bad_field SetFields_def EmbedData_def heap_eval)
  moreover have "elements after_set_fields 0 ''fields'' = Some [VRef 2]"
    by (simp add: after_set_fields_def with_bad_field SetFields_def EmbedData_def heap_eval)
  ultimately show ?thesis
    using bad by simp
qed

section \<open>Reachable worlds are well-formed\<close>

text \<open>
  The theorems above on a builder take as hypotheses that its document is a table and that
  \<open>author\<close>, \<open>footer\<close>, \<open>fields\<close> and \<open>embeds\<close> hold tables or nothing. These hold
  of every builder in every reachable world: no method removes a table or an instance,
  and the four keys are only ever assigned a table.
\<close>

lemma extends_refl: "extends w w"
  by (auto simp: extends_def)

lemma extends_trans:
  assumes "extends w1 w2" and "extends w2 w3"
  shows "extends w1 w3"
  unfolding extends_def
proof (intro conjI allI impI)
  fix a t
  assume "table_at w1 a = Some t"
  with assms(1) obtain t2 where t2: "table_at w2 a = Some t2"
    and k2: "\<forall>k\<in>special. hash t2 k = hash t k
                  \<or> (\<exists>b. hash t2 k = Some (VRef b) \<and> table_at w2 b \<noteq> None)"
    unfolding extends_def by blast
  from t2 assms(2) obtain t3 where t3: "table_at w3 a = Some t3"
    and k3: "\<forall>k\<in>special. hash t3 k = hash t2 k
                  \<or> (\<exists>b. hash t3 k = Some (VRef b) \<and> table_at w3 b \<noteq> None)"
    unfolding extends_def by blast
  have keep: "table_at w3 b \<noteq> None" if "table_at w2 b \<noteq> None" for b
    using that assms(2) unfolding extends_def by fastforce
  have "\<forall>k\<in>special. hash t3 k = hash t k
                  \<or> (\<exists>b. hash t3 k = Some (VRef b) \<and> table_at w3 b \<noteq> None)"
  proof
    fix k
    assume k: "k \<in> special"
    from k3 k consider "hash t3 k = hash t2 k"
      | b where "hash t3 k = Some (VRef b)" "table_at w3 b \<noteq> None"
      by blast
    then show "hash t3 k = hash t k
                  \<or> (\<exists>b. hash t3 k = Some (VRef b) \<and> table_at w3 b \<noteq> None)"
    proof cases
      case 1
      from k2 k consider "hash t2 k = hash t k"
        | b where "hash t2 k = Some (VRef b)" "table_at w2 b \<noteq> None"
        by blast
      then show ?thesis
      proof cases
        case 1
        with \<open>hash t3 k = hash t2 k\<close> show ?thesis by simp
      next
        case (2 b)
        with \<open>hash t3 k = hash t2 k\<close> keep show ?thesis by auto
      qed
    next
      case (2 b)
      then show ?thesis by blast
    qed
  qed
  with t3 show "\<exists>t'. table_at w3 a = Some t'
            \<and> (\<forall>k\<in>special. hash t' k = hash t k
                  \<or> (\<exists>b. hash t' k = Some (VRef b) \<and> table_at w3 b \<noteq> None))"
    by blast
next
  fix a d
  show "cell_at w3 a = Some (EmbedBuilderInst d) \<longleftrightarrow> cell_at w1 a = Some (EmbedBuilderInst d)"
    using assms unfolding extends_def by simp
next
  fix a m
  show "(\<exists>f. cell_at w3 a = Some (ContentBuilderInst m f))
             \<longleftrightarrow> (\<exists>f. cell_at w1 a = Some (ContentBuilderInst m f))"
    using assms unfolding extends_def by simp
qed

lemma extends_table: "extends w w' \<Longrightarrow> table_at w a \<noteq> None \<Longrightarrow> table_at w' a \<noteq> None"
  unfolding extends_def by fastforce

lemma extends_alloc: "extends w (snd (alloc w (Table t)))"
  unfolding extends_def
  by (auto simp: table_at_alloc cell_at_alloc dest: table_at_length)
    (auto simp: cell_at_def)

lemma extends_warn: "extends w (warn w msg)"
  by (auto simp: extends_def table_at_warn cell_at_warn)

lemma extends_set_field:
  assumes "k \<notin> special \<or> (\<exists>b. v = VRef b \<and> table_at w b \<noteq> None)"
  shows "extends w (set_field w a k v)"
proof (cases "table_at w a")
  case None
  then show ?thesis
    by (simp add: set_field_def extends_refl)
next
  case (Some ta)
  define w' where "w' = set_field w a k v"
  define ta' where "ta' = ta\<lparr>hash := (hash ta)(k \<mapsto> v)\<rparr>"
  have ts: "table_at w' x = (if x = a then Some ta' else table_at w x)" for x
    unfolding w'_def ta'_def by (rule table_at_set_field [OF Some])
  have cells: "cell_at w' x = cell_at w x" if "x \<noteq> a" for x
    unfolding w'_def using that by (simp add: cell_at_set_field)
  have ca: "cell_at w a = Some (Table ta)"
    using Some by (simp add: table_at_cell)
  have ca': "cell_at w' a = Some (Table ta')"
    unfolding w'_def ta'_def by (rule cell_at_set_field_same [OF Some])
  have keep: "table_at w' b \<noteq> None" if "table_at w b \<noteq> None" for b
    using that by (simp add: ts)
  have keys: "hash ta' j = hash ta j \<or> (\<exists>b. hash ta' j = Some (VRef b) \<and> table_at w' b \<noteq> None)"
    if "j \<in> special" for j
  proof (cases "j = k")
    case False
    then show ?thesis
      by (simp add: ta'_def)
  next
    case True
    with that assms obtain b where v: "v = VRef b" and b: "table_at w b \<noteq> None"
      by blast
    from True v have "hash ta' j = Some (VRef b)"
      by (simp add: ta'_def)
    with keep [OF b] show ?thesis
      by blast
  qed
  have "extends w w'"
    unfolding extends_def
  proof (intro conjI allI impI)
    fix x t
    assume x: "table_at w x = Some t"
    show "\<exists>t'. table_at w' x = Some t'
            \<and> (\<forall>j\<in>special. hash t' j = hash t j
                  \<or> (\<exists>b. hash t' j = Some (VRef b) \<and> table_at w' b \<noteq> None))"
    proof (cases "x = a")
      case False
      with x show ?thesis
        by (simp add: ts)
    next
      case True
      with x Some have "t = ta"
        by simp
      with True keys show ?thesis
        by (simp add: ts)
    qed
  next
    fix x d
    show "cell_at w' x = Some (EmbedBuilderInst d) \<longleftrightarrow> cell_at w x = Some (EmbedBuilderInst d)"
      using cells [of x] ca ca' by (cases "x = a") simp_all
  next
    fix x m
    show "(\<exists>f. cell_at w' x = Some (ContentBuilderInst m f))
            \<longleftrightarrow> (\<exists>f. cell_at w x = Some (ContentBuilderInst m f))"
      using cells [of x] ca ca' by (cases "x = a") simp_all
  qed
  then show ?thesis
    by (simp add: w'_def)
qed

lemma extends_put_arr:
  assumes "table_at w r = Some t"
  shows "extends w (put w r (Table (t\<lparr>arr := xs\<rparr>)))"
proof -
  have rl: "r < length (heap w)"
    using assms by (rule table_at_length)
  have cr: "cell_at w r = Some (Table t)"
    using assms by (simp add: table_at_cell)
  show ?thesis
    unfolding extends_def using rl cr assms
    by (auto simp: table_at_put cell_at_put)
qed

lemma extends_put_flags:
  assumes "cell_at w c = Some (ContentBuilderInst m f)"
  shows "extends w (put w c (ContentBuilderInst m f'))"
proof -
  have cl: "c < length (heap w)"
    using assms by (simp add: cell_at_def split: if_splits)
  have tables: "table_at (put w c (ContentBuilderInst m f')) a = table_at w a" for a
    using assms by (auto simp: table_at_def cell_at_put)
  show ?thesis
    unfolding extends_def using cl assms
    by (auto simp: tables cell_at_put)
qed

lemma extends_or_new_table: "extends w (snd (or_new_table w x))"
  by (cases x) (simp_all add: or_new_table_def extends_refl extends_alloc split_beta)

lemma table_clone_Inr:
  assumes "table_clone w v = Inr (a, w')"
  shows "extends w w'" and "table_at w' a \<noteq> None"
proof -
  from assms obtain b t where t: "table_at w b = Some t" and r: "(a, w') = alloc w (Table t)"
    by (auto simp: table_clone_def split: val.splits option.splits)
  from r have a: "a = length (heap w)" and w': "w' = snd (alloc w (Table t))"
    by (simp_all add: alloc_def)
  show "extends w w'"
    unfolding w' by (rule extends_alloc)
  show "table_at w' a \<noteq> None"
    unfolding w' a by (simp add: table_at_alloc)
qed

lemma table_clone_Inl: "table_clone w v = Inl (e, w') \<Longrightarrow> w' = w"
  by (auto simp: table_clone_def split: val.splits option.splits)

lemma Append_Inr:
  assumes "Append w v vs = Inr (r, w')"
  shows "extends w w'" and "table_at w' r \<noteq> None"
proof -
  from assms obtain w1 t where c: "table_clone w v = Inr (r, w1)"
    and t: "table_at w1 r = Some t"
    and w': "w' = put w1 r (Table (foldl push t vs))"
    by (auto simp: Append_def split: sum.splits option.splits)
  have "extends w1 w'"
    unfolding w' foldl_push by (rule extends_put_arr [OF t])
  with table_clone_Inr(1) [OF c] show "extends w w'"
    by (rule extends_trans)
  show "table_at w' r \<noteq> None"
    unfolding w' using table_at_length [OF t] by (simp add: table_at_put)
qed

lemma Append_Inl:
  assumes "Append w v vs = Inl (e, w')"
  shows "extends w w'"
proof (cases "table_clone w v")
  case (Inl x)
  with assms have "w' = w"
    by (cases x) (simp add: Append_def table_clone_Inl)
  then show ?thesis
    by (simp add: extends_refl)
next
  case (Inr x)
  obtain r w1 where x: "x = (r, w1)"
    by (cases x)
  with Inr assms have "w' = w1"
    by (simp add: Append_def split: option.splits)
  with table_clone_Inr(1) [of w v r w1] Inr x show ?thesis
    by simp
qed

lemma extends_append_to: "extends w (world_of (append_to w d name vs))"
proof -
  obtain array w1 where o: "or_new_table w (index w d name) = (array, w1)"
    by (cases "or_new_table w (index w d name)")
  then have e1: "extends w w1"
    using extends_or_new_table [of w "index w d name"] by simp
  show ?thesis
  proof (cases "Append w1 array vs")
    case (Inl x)
    obtain e w2 where x: "x = (e, w2)"
      by (cases x)
    with Inl o have "world_of (append_to w d name vs) = w2"
      by (simp add: append_to_def world_of_def)
    with extends_trans [OF e1 Append_Inl] Inl x show ?thesis
      by simp
  next
    case (Inr x)
    obtain r w2 where x: "x = (r, w2)"
      by (cases x)
    with Inr o have w: "world_of (append_to w d name vs) = set_field w2 d name (VRef r)"
      by (simp add: append_to_def world_of_def)
    from Inr x have a: "Append w1 array vs = Inr (r, w2)"
      by simp
    have "extends w2 (set_field w2 d name (VRef r))"
      using Append_Inr(2) [OF a] by (intro extends_set_field) simp
    with extends_trans [OF e1 Append_Inr(1) [OF a]] show ?thesis
      unfolding w by (rule extends_trans)
  qed
qed

lemma extends_clone_and_replace:
  assumes "key \<notin> special"
  shows "extends w (world_of (clone_and_replace w e name key v))"
proof (cases "EmbedData w e")
  case None
  then show ?thesis
    by (simp add: clone_and_replace_def world_of_def extends_refl)
next
  case (Some d)
  obtain current w1 where o: "or_new_table w (index w d name) = (current, w1)"
    by (cases "or_new_table w (index w d name)")
  then have e1: "extends w w1"
    using extends_or_new_table [of w "index w d name"] by simp
  show ?thesis
  proof (cases "table_clone w1 current")
    case (Inl x)
    obtain err w2 where x: "x = (err, w2)"
      by (cases x)
    with Inl o Some have "world_of (clone_and_replace w e name key v) = w2"
      by (simp add: clone_and_replace_def world_of_def)
    moreover from Inl x have "w2 = w1"
      by (simp add: table_clone_Inl)
    ultimately show ?thesis
      using e1 by simp
  next
    case (Inr x)
    obtain sub w2 where x: "x = (sub, w2)"
      by (cases x)
    with Inr o Some have w:
      "world_of (clone_and_replace w e name key v)
         = set_field (set_field w2 sub key v) d name (VRef sub)"
      by (simp add: clone_and_replace_def world_of_def)
    from Inr x have c: "table_clone w1 current = Inr (sub, w2)"
      by simp
    have e2: "extends w1 w2"
      by (rule table_clone_Inr(1) [OF c])
    have e3: "extends w2 (set_field w2 sub key v)"
      using assms by (intro extends_set_field) simp
    have "table_at (set_field w2 sub key v) sub \<noteq> None"
      using table_clone_Inr(2) [OF c] e3 by (rule extends_table [rotated])
    then have e4: "extends (set_field w2 sub key v)
                     (set_field (set_field w2 sub key v) d name (VRef sub))"
      by (intro extends_set_field) simp
    show ?thesis
      unfolding w by (rule extends_trans [OF extends_trans [OF extends_trans [OF e1 e2] e3] e4])
  qed
qed

lemma extends_SetTitle: "extends w (world_of (SetTitle w e s))"
  by (auto simp: SetTitle_def world_of_Inl world_of_Inr extends_refl special_def
      intro!: extends_set_field split: sum.splits option.splits)

lemma extends_SetDescription: "extends w (world_of (SetDescription w e s))"
  by (auto simp: SetDescription_def world_of_Inl world_of_Inr extends_refl special_def
      intro!: extends_set_field split: sum.splits option.splits)

lemma extends_SetTimestamp: "extends w (world_of (SetTimestamp w e s))"
  by (auto simp: SetTimestamp_def Let_def world_of_Inl world_of_Inr extends_refl special_def
      intro!: extends_set_field split: sum.splits option.splits)

lemma extends_SetUsername: "extends w (world_of (SetUsername w c s))"
  by (auto simp: SetUsername_def world_of_Inl world_of_Inr extends_refl special_def
      intro!: extends_set_field split: sum.splits option.splits)

lemma extends_SetContent: "extends w (world_of (SetContent w c s))"
  by (auto simp: SetContent_def world_of_Inl world_of_Inr extends_refl special_def
      intro!: extends_set_field split: sum.splits option.splits)

lemma extends_SetThread: "extends w (world_of (SetThread w c s))"
  by (auto simp: SetThread_def world_of_Inl world_of_Inr extends_refl special_def
      intro!: extends_set_field split: sum.splits option.splits)

lemma sub_key_not_special: "sub_key f \<notin> special"
  by (cases f) (simp_all add: special_def)

lemma extends_sub_setter: "extends w (world_of (call_sub_setter f w e s))"
  using extends_clone_and_replace [OF sub_key_not_special, of w e "sub_object f" f "VStr s"]
  by (cases f)
    (auto simp: SetAuthorName_def SetAuthorUrl_def SetAuthorIconUrl_def SetFooterText_def
      SetFooterIconUrl_def world_of_Inl extends_refl split: sum.splits)

lemma extends_AddFields: "extends w (world_of (AddFields w e args))"
  using extends_append_to [of w _ "''fields''" args]
  by (auto simp: AddFields_def world_of_Inl extends_refl split: option.splits)

lemma extends_SetFields: "extends w (world_of (SetFields w e args))"
  using extends_append_to [of w _ "''fields''" args]
  by (auto simp: SetFields_def world_of_Inl extends_refl split: option.splits)

lemma extends_AddEmbed: "extends w (world_of (AddEmbed w c v))"
  using extends_append_to [of w _ "''embeds''"]
  by (auto simp: AddEmbed_def world_of_Inl extends_refl split: option.splits val.splits cell.splits)

lemma extends_AddFlag: "extends w (world_of (AddFlag w c flag))"
  by (auto simp: AddFlag_def world_of_Inl world_of_Inr extends_refl extends_warn
      intro!: extends_put_flags dest: ContentBuilder_this_cell split: option.splits)

lemma extends_AddField: "extends w (world_of (AddField w e name value inline))"
proof (cases "\<exists>d. AddField w e name value inline
    = (let (array, w1) = or_new_table w (index w d ''fields'');
           (field, w2) = alloc w1 (Table (field_table inline name value))
       in case Append w2 array [VRef field] of
            Inl e \<Rightarrow> Inl e
          | Inr (result, w3) \<Rightarrow> Inr (set_field w3 d ''fields'' (VRef result)))")
  case False
  then have "world_of (AddField w e name value inline) = w"
    by (auto simp: AddField_def world_of_Inl split: sum.splits option.splits if_splits)
  then show ?thesis
    by (simp add: extends_refl)
next
  case True
  then obtain d where eq: "AddField w e name value inline
    = (let (array, w1) = or_new_table w (index w d ''fields'');
           (field, w2) = alloc w1 (Table (field_table inline name value))
       in case Append w2 array [VRef field] of
            Inl e \<Rightarrow> Inl e
          | Inr (result, w3) \<Rightarrow> Inr (set_field w3 d ''fields'' (VRef result)))"
    by blast
  obtain array w1 where o: "or_new_table w (index w d ''fields'') = (array, w1)"
    by (cases "or_new_table w (index w d ''fields'')")
  then have e1: "extends w w1"
    using extends_or_new_table [of w "index w d ''fields''"] by simp
  define field where "field = length (heap w1)"
  define w2 where "w2 = snd (alloc w1 (Table (field_table inline name value)))"
  have al: "alloc w1 (Table (field_table inline name value)) = (field, w2)"
    by (simp add: field_def w2_def alloc_def)
  have e2: "extends w w2"
    unfolding w2_def by (rule extends_trans [OF e1 extends_alloc])
  show ?thesis
  proof (cases "Append w2 array [VRef field]")
    case (Inl x)
    obtain err w3 where x: "x = (err, w3)"
      by (cases x)
    with Inl o al have "world_of (AddField w e name value inline) = w3"
      by (simp add: eq world_of_def)
    with extends_trans [OF e2 Append_Inl] Inl x show ?thesis
      by simp
  next
    case (Inr x)
    obtain r w3 where x: "x = (r, w3)"
      by (cases x)
    with Inr o al have w:
      "world_of (AddField w e name value inline) = set_field w3 d ''fields'' (VRef r)"
      by (simp add: eq world_of_def)
    from Inr x have a: "Append w2 array [VRef field] = Inr (r, w3)"
      by simp
    have "extends w3 (set_field w3 d ''fields'' (VRef r))"
      using Append_Inr(2) [OF a] by (intro extends_set_field) simp
    with extends_trans [OF e2 Append_Inr(1) [OF a]] show ?thesis
      unfolding w by (rule extends_trans)
  qed
qed

lemma extends_SetField: "extends w (world_of (SetField w e name value inline))"
  unfolding SetField_AddField by (rule extends_AddField)

lemma table_or_nil_extends:
  assumes ext: "extends w w'" and d: "table_at w d \<noteq> None" and k: "k \<in> special"
    and ok: "table_or_nil w d k"
  shows "table_or_nil w' d k"
proof -
  from d obtain t where t: "table_at w d = Some t"
    by blast
  with ext k obtain t' where t': "table_at w' d = Some t'"
    and keys: "hash t' k = hash t k \<or> (\<exists>b. hash t' k = Some (VRef b) \<and> table_at w' b \<noteq> None)"
    unfolding extends_def by blast
  from ok have "hash t k = None \<or> (\<exists>b. hash t k = Some (VRef b) \<and> table_at w b \<noteq> None)"
    by (simp add: table_or_nil_hash [OF t])
  with keys extends_table [OF ext]
  have "hash t' k = None \<or> (\<exists>b. hash t' k = Some (VRef b) \<and> table_at w' b \<noteq> None)"
    by metis
  then show ?thesis
    by (simp add: table_or_nil_hash [OF t'])
qed

lemma well_formed_EmbedBuilder:
  "well_formed w \<Longrightarrow> cell_at w e = Some (EmbedBuilderInst d) \<Longrightarrow>
     EmbedData w e = Some d \<and> table_or_nil w d ''author''
     \<and> table_or_nil w d ''footer'' \<and> table_or_nil w d ''fields''"
  unfolding well_formed_def by (drule spec [of _ e]) simp

lemma well_formed_ContentBuilder:
  "well_formed w \<Longrightarrow> cell_at w c = Some (ContentBuilderInst m f) \<Longrightarrow>
     ContentBuilder_this w c = Some (m, f) \<and> table_or_nil w m ''embeds''"
  unfolding well_formed_def by (drule spec [of _ c]) simp

lemma well_formedI:
  assumes "\<And>e d. cell_at w e = Some (EmbedBuilderInst d) \<Longrightarrow>
             EmbedData w e = Some d \<and> table_or_nil w d ''author''
             \<and> table_or_nil w d ''footer'' \<and> table_or_nil w d ''fields''"
    and "\<And>c m f. cell_at w c = Some (ContentBuilderInst m f) \<Longrightarrow>
             ContentBuilder_this w c = Some (m, f) \<and> table_or_nil w m ''embeds''"
  shows "well_formed w"
  unfolding well_formed_def using assms by (auto split: option.splits cell.splits)

lemma well_formed_extends:
  assumes wf: "well_formed w" and ext: "extends w w'"
  shows "well_formed w'"
proof (rule well_formedI)
  fix e d
  assume c': "cell_at w' e = Some (EmbedBuilderInst d)"
  with ext have c: "cell_at w e = Some (EmbedBuilderInst d)"
    unfolding extends_def by blast
  note old = well_formed_EmbedBuilder [OF wf c]
  then have d: "table_at w d \<noteq> None"
    by (simp add: EmbedData_iff)
  have "EmbedData w' e = Some d"
    using c' extends_table [OF ext d] by (simp add: EmbedData_iff)
  moreover have "table_or_nil w' d ''author''" "table_or_nil w' d ''footer''"
    "table_or_nil w' d ''fields''"
    using old by (auto intro!: table_or_nil_extends [OF ext d] simp: special_def)
  ultimately show "EmbedData w' e = Some d \<and> table_or_nil w' d ''author''
             \<and> table_or_nil w' d ''footer'' \<and> table_or_nil w' d ''fields''"
    by simp
next
  fix c m f'
  assume c': "cell_at w' c = Some (ContentBuilderInst m f')"
  with ext obtain f where c: "cell_at w c = Some (ContentBuilderInst m f)"
    unfolding extends_def by blast
  note old = well_formed_ContentBuilder [OF wf c]
  then have m: "table_at w m \<noteq> None"
    by (simp add: ContentBuilder_this_iff)
  have "ContentBuilder_this w' c = Some (m, f')"
    using c' extends_table [OF ext m] by (simp add: ContentBuilder_this_iff)
  moreover have "table_or_nil w' m ''embeds''"
    using old by (auto intro!: table_or_nil_extends [OF ext m] simp: special_def)
  ultimately show "ContentBuilder_this w' c = Some (m, f') \<and> table_or_nil w' m ''embeds''"
    by simp
qed

lemma well_formed_alloc_instance:
  assumes wf: "well_formed w" and inst: "\<And>t. c \<noteq> Table t"
    and e: "\<And>d. c = EmbedBuilderInst d \<Longrightarrow>
              table_at w d \<noteq> None \<and> table_or_nil w d ''author''
              \<and> table_or_nil w d ''footer'' \<and> table_or_nil w d ''fields''"
    and m: "\<And>m f. c = ContentBuilderInst m f \<Longrightarrow>
              table_at w m \<noteq> None \<and> table_or_nil w m ''embeds''"
  shows "well_formed (snd (alloc w c))"
proof (rule well_formedI)
  note tables = table_at_alloc_instance [of c w, OF inst]
  note same = table_or_nil_same [of "snd (alloc w c)" w, OF tables]
  {
    fix a d
    assume c': "cell_at (snd (alloc w c)) a = Some (EmbedBuilderInst d)"
    show "EmbedData (snd (alloc w c)) a = Some d \<and> table_or_nil (snd (alloc w c)) d ''author''
             \<and> table_or_nil (snd (alloc w c)) d ''footer''
             \<and> table_or_nil (snd (alloc w c)) d ''fields''"
    proof (cases "a = length (heap w)")
      case True
      with c' have "c = EmbedBuilderInst d"
        by (simp add: cell_at_alloc)
      from e [OF this] c' show ?thesis
        by (simp add: EmbedData_iff tables same)
    next
      case False
      with c' have "cell_at w a = Some (EmbedBuilderInst d)"
        by (simp add: cell_at_alloc)
      from well_formed_EmbedBuilder [OF wf this] c' show ?thesis
        by (simp add: EmbedData_iff tables same)
    qed
  next
    fix a m' f
    assume c': "cell_at (snd (alloc w c)) a = Some (ContentBuilderInst m' f)"
    show "ContentBuilder_this (snd (alloc w c)) a = Some (m', f)
            \<and> table_or_nil (snd (alloc w c)) m' ''embeds''"
    proof (cases "a = length (heap w)")
      case True
      with c' have "c = ContentBuilderInst m' f"
        by (simp add: cell_at_alloc)
      from m [OF this] c' show ?thesis
        by (simp add: ContentBuilder_this_iff tables same)
    next
      case False
      with c' have "cell_at w a = Some (ContentBuilderInst m' f)"
        by (simp add: cell_at_alloc)
      from well_formed_ContentBuilder [OF wf this] c' show ?thesis
        by (simp add: ContentBuilder_this_iff tables same)
    qed
  }
qed

lemma well_formed_empty: "well_formed empty_world"
  by (simp add: well_formed_def cell_at_def empty_world_def)

lemma well_formed_new_EmbedBuilder:
  assumes "well_formed w"
  shows "well_formed (snd (new_EmbedBuilder w))"
proof -
  let ?w1 = "snd (alloc w (Table empty_table))"
  let ?d = "length (heap w)"
  have eq: "snd (new_EmbedBuilder w) = snd (alloc ?w1 (EmbedBuilderInst ?d))"
    by (simp add: new_EmbedBuilder_def alloc_def)
  have wf1: "well_formed ?w1"
    by (rule well_formed_extends [OF assms extends_alloc])
  have d: "table_at ?w1 ?d \<noteq> None"
    by (simp add: table_at_alloc)
  have keys: "index ?w1 ?d k = None" for k
    by (simp add: index_alloc_new hash_empty_table)
  show ?thesis
    unfolding eq using d keys
    by (intro well_formed_alloc_instance [OF wf1]) (simp_all add: table_or_nil_absent)
qed

lemma well_formed_new_ContentBuilder:
  assumes "well_formed w"
  shows "well_formed (snd (new_ContentBuilder w))"
proof -
  let ?a = "length (heap w)"
  let ?w1 = "snd (alloc w (Table empty_table))"
  let ?t = "\<lparr>hash = [''attachments'' \<mapsto> VRef ?a], arr = []\<rparr>"
  let ?w2 = "snd (alloc ?w1 (Table ?t))"
  have eq: "snd (new_ContentBuilder w)
      = snd (alloc ?w2 (ContentBuilderInst (Suc ?a) new_BitField))"
    by (simp add: new_ContentBuilder_def alloc_def)
  have wf2: "well_formed ?w2"
    by (rule well_formed_extends
        [OF well_formed_extends [OF assms extends_alloc] extends_alloc])
  have m: "table_at ?w2 (Suc ?a) = Some ?t"
    by (simp add: table_at_alloc heap_alloc)
  then have "index ?w2 (Suc ?a) ''embeds'' = None"
    by (simp add: index_def)
  with m show ?thesis
    unfolding eq
    by (intro well_formed_alloc_instance [OF wf2]) (simp_all add: table_or_nil_absent)
qed

theorem reachable_well_formed: "reachable w \<Longrightarrow> well_formed w"
proof (induction rule: reachable.induct)
  case start
  show ?case by (rule well_formed_empty)
next
  case (new_table w t)
  then show ?case by (intro well_formed_extends [OF _ extends_alloc])
next
  case (new_EmbedBuilder w)
  then show ?case by (intro well_formed_new_EmbedBuilder)
next
  case (new_ContentBuilder w)
  then show ?case by (intro well_formed_new_ContentBuilder)
next
  case (SetTitle w e s)
  then show ?case by (intro well_formed_extends [OF _ extends_SetTitle])
next
  case (SetDescription w e s)
  then show ?case by (intro well_formed_extends [OF _ extends_SetDescription])
next
  case (sub_setter w f e s)
  then show ?case by (intro well_formed_extends [OF _ extends_sub_setter])
next
  case (SetTimestamp w e s)
  then show ?case by (intro well_formed_extends [OF _ extends_SetTimestamp])
next
  case (AddField w e s s' inline)
  then show ?case by (intro well_formed_extends [OF _ extends_AddField])
next
  case (SetField w e s s' inline)
  then show ?case by (intro well_formed_extends [OF _ extends_SetField])
next
  case (AddFields w e args)
  then show ?case by (intro well_formed_extends [OF _ extends_AddFields])
next
  case (SetFields w e args)
  then show ?case by (intro well_formed_extends [OF _ extends_SetFields])
next
  case (SetUsername w c s)
  then show ?case by (intro well_formed_extends [OF _ extends_SetUsername])
next
  case (SetContent w c s)
  then show ?case by (intro well_formed_extends [OF _ extends_SetContent])
next
  case (SetThread w c s)
  then show ?case by (intro well_formed_extends [OF _ extends_SetThread])
next
  case (AddFlag w c flag)
  then show ?case by (intro well_formed_extends [OF _ extends_AddFlag])
next
  case (AddEmbed w c v)
  then show ?case by (intro well_formed_extends [OF _ extends_AddEmbed])
qed

corollary reachable_EmbedBuilder:
  "reachable w \<Longrightarrow> cell_at w e = Some (EmbedBuilderInst d) \<Longrightarrow>
     EmbedData w e = Some d \<and> table_or_nil w d ''author''
     \<and> table_or_nil w d ''footer'' \<and> table_or_nil w d ''fields''"
  by (rule well_formed_EmbedBuilder [OF reachable_well_formed])

corollary reachable_ContentBuilder:
  "reachable w \<Longrightarrow> cell_at w c = Some (ContentBuilderInst m flags) \<Longrightarrow>
     ContentBuilder_this w c = Some (m, flags) \<and> table_or_nil w m ''embeds''"
  by (rule well_formed_ContentBuilder [OF reachable_well_formed])

lemma reachable_two_builders: "reachable two_builders"
  unfolding two_builders_def fresh_embed_def
  by (intro reachable.new_ContentBuilder reachable.new_EmbedBuilder reachable.start)

end
